theory Spec2Isabelle
  imports Main "HOL-Library.Char_ord" "HOL-Library.List_Lexorder"
begin

section \<open>Persisted layout\<close>

text \<open>
  The store is the SQLite database of \<^verbatim>\<open>001_initial.sql\<close>. Four of its tables matter here.
  \<^item> \<^verbatim>\<open>skus(sku PK, name, category, initial_stock)\<close>: a list of rows in table order.
  \<^item> \<^verbatim>\<open>inventory(team_id, sku, stock, reserved, version, updated_at, PK(team_id, sku))\<close>:
    a map from the primary key to the other columns.
  \<^item> \<^verbatim>\<open>inventory_events(id PK, ...)\<close>: the audit rows in insertion order.
  \<^item> \<^verbatim>\<open>events(id PK, team_id, type, payload, created_at, processed_at, metadata)\<close>:
    the rows in insertion order.
  The schema declares no CHECK constraint and no foreign key on these tables.
  INTEGER columns are \<open>int\<close>, TEXT columns are \<open>string\<close>; text is compared bytewise
  (SQLite's BINARY collation), which is the lexicographic order on \<open>char list\<close>.
  The quantities of the TypeScript interfaces are \<^verbatim>\<open>number\<close>; they are modelled as \<open>int\<close>,
  the values the INTEGER columns hold (JavaScript adds and compares such values exactly
  below \<open>2^53\<close>).
\<close>

record sku_row =
  s_sku :: string
  s_name :: string
  s_category :: string
  s_initial_stock :: int

record inventory_row =
  i_stock :: int
  i_reserved :: int
  i_version :: int
  i_updated_at :: string

text \<open>\<^verbatim>\<open>interface InventoryEvent\<close>, also the row of \<^verbatim>\<open>inventory_events\<close>
  (\<^verbatim>\<open>logInventoryEvent\<close> copies field by field). The unions of string literals
  \<^verbatim>\<open>type\<close> and \<^verbatim>\<open>by\<close> are strings.\<close>

record InventoryEvent =
  ie_id :: string
  ie_teamId :: string
  ie_sku :: string
  ie_type :: string
  ie_quantity :: int
  ie_previousStock :: int
  ie_newStock :: int
  ie_by :: string
  ie_createdAt :: string

text \<open>A JSON document: the \<^verbatim>\<open>unknown\<close> payload of an event, as \<^verbatim>\<open>JSON.parse\<close>
  produces it. \<^verbatim>\<open>JSON.stringify\<close> followed by \<^verbatim>\<open>JSON.parse\<close> is the identity on
  such a value, so the \<^verbatim>\<open>payload\<close> column holds the document itself.\<close>

datatype json =
    JNull
  | JBool bool
  | JNumber int
  | JString string
  | JArray "json list"
  | JObject "(string \<times> json) list"

text \<open>\<^verbatim>\<open>interface EventMetadata\<close>: every field is optional. A field that is
  \<^verbatim>\<open>undefined\<close> is dropped by \<^verbatim>\<open>JSON.stringify\<close> and absent after \<^verbatim>\<open>JSON.parse\<close>:
  both are \<open>None\<close>.\<close>

record EventMetadata =
  correlationId :: "string option"
  causationId :: "string option"
  replayOf :: "string option"
  delayedUntil :: "string option"
  outOfOrder :: "string option"

record event_row =
  e_id :: string
  e_team_id :: string
  e_type :: string
  e_payload :: json
  e_created_at :: string
  e_processed_at :: "string option"
  e_metadata :: "EventMetadata option"

record db =
  skus :: "sku_row list"
  inventory :: "(string \<times> string) \<rightharpoonup> inventory_row"
  inventory_events :: "InventoryEvent list"
  events :: "event_row list"

section \<open>What a call reads from outside the store\<close>

text \<open>
  A call draws an identifier from \<^verbatim>\<open>uuidv4()\<close> and reads the clock with
  \<^verbatim>\<open>new Date().toISOString()\<close>, at most twice. The values it gets are the fields of
  \<open>effects\<close>: \<open>uuid\<close> for the identifier, \<open>now1\<close> and \<open>now2\<close> for the first and the second
  reading of the clock.
\<close>

record effects =
  uuid :: string
  now1 :: string
  now2 :: string

text \<open>The errors the services throw. The source throws \<^verbatim>\<open>new Error(message)\<close>; each
  constructor stands for one message:
  \<^item> \<open>InventoryNotFound\<close>: \<^verbatim>\<open>Inventory not found for <team>/<sku>\<close>;
  \<^item> \<open>ConcurrentModification\<close>: \<^verbatim>\<open>Concurrent modification detected\<close>;
  \<^item> \<open>InvalidRelease\<close>: \<^verbatim>\<open>Invalid release: would result in negative values\<close>;
  \<^item> \<open>NegativeStock\<close>: \<^verbatim>\<open>Cannot adjust to negative stock\<close>;
  \<^item> \<open>EventNotFound\<close>: \<^verbatim>\<open>Event <id> not found\<close>;
  \<^item> \<open>UniqueConstraint\<close>: SQLite refusing an INSERT whose primary key is taken;
  \<^item> \<open>TypeError\<close>: JavaScript reading a property of \<^verbatim>\<open>null\<close>.\<close>

datatype error =
    InventoryNotFound
  | ConcurrentModification
  | InvalidRelease
  | NegativeStock
  | EventNotFound
  | UniqueConstraint
  | TypeError

section \<open>Inventory ledger (InventoryService)\<close>

record Inventory =
  teamId :: string
  sku :: string
  name :: string
  stock :: int
  reserved :: int
  available :: int
  version :: int
  updatedAt :: string

record RestockDTO =
  rs_teamId :: string
  rs_sku :: string
  rs_quantity :: int
  rs_by :: string

record ReserveDTO =
  rv_teamId :: string
  rv_sku :: string
  rv_quantity :: int
  rv_orderId :: string

text \<open>The SELECT of \<^verbatim>\<open>getInventoryItem\<close> joins \<^verbatim>\<open>inventory\<close> with \<^verbatim>\<open>skus\<close> and
  computes \<^verbatim>\<open>(i.stock - i.reserved) as available\<close>; \<^verbatim>\<open>mapRowToInventory\<close> copies the
  columns.\<close>

definition mapRowToInventory :: "string \<Rightarrow> sku_row \<Rightarrow> inventory_row \<Rightarrow> Inventory" where
  "mapRowToInventory tid s i =
     \<lparr>teamId = tid, sku = s_sku s, name = s_name s,
      stock = i_stock i, reserved = i_reserved i,
      available = i_stock i - i_reserved i,
      version = i_version i, updatedAt = i_updated_at i\<rparr>"

definition getInventoryItem :: "db \<Rightarrow> string \<Rightarrow> string \<Rightarrow> Inventory option" where
  "getInventoryItem d tid k =
     (case inventory d (tid, k) of
        None \<Rightarrow> None
      | Some i \<Rightarrow>
          (case find (\<lambda>s. s_sku s = k) (skus d) of
             None \<Rightarrow> None
           | Some s \<Rightarrow> Some (mapRowToInventory tid s i)))"

text \<open>
  The three UPDATE statements have one shape:
  \<^verbatim>\<open>UPDATE inventory SET <columns>, version = version + 1, updated_at = ?
   WHERE team_id = ? AND sku = ? AND version = ?\<close>.
  \<open>update_inventory\<close> takes the assignment of the other columns as \<open>set_cols\<close> and returns
  \<^verbatim>\<open>result.changes\<close>, the number of rows the statement changed, with the new store.
\<close>

definition update_inventory ::
  "(inventory_row \<Rightarrow> inventory_row) \<Rightarrow> string \<Rightarrow> string \<Rightarrow> string \<Rightarrow> int \<Rightarrow> db \<Rightarrow> nat \<times> db" where
  "update_inventory set_cols now tid k v d =
     (case inventory d (tid, k) of
        None \<Rightarrow> (0, d)
      | Some i \<Rightarrow>
          if i_version i = v
          then (1, d\<lparr>inventory := (inventory d)((tid, k) \<mapsto>
                       (set_cols i)\<lparr>i_version := i_version i + 1, i_updated_at := now\<rparr>)\<rparr>)
          else (0, d))"

text \<open>\<^verbatim>\<open>INSERT INTO inventory_events\<close>: refused when the id is already a primary key.\<close>

definition logInventoryEvent :: "InventoryEvent \<Rightarrow> db \<Rightarrow> error + db" where
  "logInventoryEvent ev d =
     (if ie_id ev \<in> set (map ie_id (inventory_events d))
      then Inl UniqueConstraint
      else Inr (d\<lparr>inventory_events := inventory_events d @ [ev]\<rparr>))"

text \<open>
  Every mutating method starts with \<^verbatim>\<open>const current = await this.getInventoryItem(...)\<close>.
  The \<^verbatim>\<open>await\<close> is the one point where another call can run; everything after it is
  synchronous. So each method is its read followed by the rest, and the rest is a function
  of the snapshot \<open>current\<close> and of the store as it is when the method resumes.
  A result is the value returned or the error thrown, paired with the store afterwards.
\<close>

definition restock_after_read ::
  "RestockDTO \<Rightarrow> effects \<Rightarrow> Inventory option \<Rightarrow> db \<Rightarrow> (error + unit) \<times> db" where
  "restock_after_read dto fx current d =
     (case current of
        None \<Rightarrow> (Inl InventoryNotFound, d)
      | Some cur \<Rightarrow>
          (let newStock = stock cur + rs_quantity dto;
               (changes, d1) = update_inventory (\<lambda>i. i\<lparr>i_stock := newStock\<rparr>)
                                 (now1 fx) (rs_teamId dto) (rs_sku dto) (version cur) d
           in if changes = 0 then (Inl ConcurrentModification, d1)
              else (case logInventoryEvent
                           \<lparr>ie_id = uuid fx, ie_teamId = rs_teamId dto, ie_sku = rs_sku dto,
                            ie_type = ''restocked'', ie_quantity = rs_quantity dto,
                            ie_previousStock = stock cur, ie_newStock = newStock,
                            ie_by = rs_by dto, ie_createdAt = now2 fx\<rparr> d1 of
                      Inl e \<Rightarrow> (Inl e, d1)
                    | Inr d2 \<Rightarrow> (Inr (), d2))))"

definition restock :: "RestockDTO \<Rightarrow> effects \<Rightarrow> db \<Rightarrow> (error + unit) \<times> db" where
  "restock dto fx d =
     restock_after_read dto fx (getInventoryItem d (rs_teamId dto) (rs_sku dto)) d"

definition reserve_after_read ::
  "ReserveDTO \<Rightarrow> effects \<Rightarrow> Inventory option \<Rightarrow> db \<Rightarrow> (error + bool) \<times> db" where
  "reserve_after_read dto fx current d =
     (case current of
        None \<Rightarrow> (Inl InventoryNotFound, d)
      | Some cur \<Rightarrow>
          if available cur < rv_quantity dto then (Inr False, d)
          else
            (let newReserved = reserved cur + rv_quantity dto;
                 (changes, d1) = update_inventory (\<lambda>i. i\<lparr>i_reserved := newReserved\<rparr>)
                                   (now1 fx) (rv_teamId dto) (rv_sku dto) (version cur) d
             in if changes = 0 then (Inl ConcurrentModification, d1)
                else (case logInventoryEvent
                             \<lparr>ie_id = uuid fx, ie_teamId = rv_teamId dto, ie_sku = rv_sku dto,
                              ie_type = ''reserved'', ie_quantity = rv_quantity dto,
                              ie_previousStock = stock cur, ie_newStock = stock cur,
                              ie_by = ''system'', ie_createdAt = now2 fx\<rparr> d1 of
                        Inl e \<Rightarrow> (Inl e, d1)
                      | Inr d2 \<Rightarrow> (Inr True, d2))))"

definition reserve :: "ReserveDTO \<Rightarrow> effects \<Rightarrow> db \<Rightarrow> (error + bool) \<times> db" where
  "reserve dto fx d =
     reserve_after_read dto fx (getInventoryItem d (rv_teamId dto) (rv_sku dto)) d"

definition release_after_read ::
  "string \<Rightarrow> string \<Rightarrow> int \<Rightarrow> string \<Rightarrow> effects \<Rightarrow> Inventory option \<Rightarrow> db
     \<Rightarrow> (error + bool) \<times> db" where
  "release_after_read tid k quantity orderId fx current d =
     (case current of
        None \<Rightarrow> (Inr False, d)
      | Some cur \<Rightarrow>
          (let newStock = stock cur - quantity;
               newReserved = reserved cur - quantity
           in if newStock < 0 \<or> newReserved < 0 then (Inl InvalidRelease, d)
              else
                (let (changes, d1) =
                       update_inventory (\<lambda>i. i\<lparr>i_stock := newStock, i_reserved := newReserved\<rparr>)
                         (now1 fx) tid k (version cur) d
                 in if changes = 0 then (Inl ConcurrentModification, d1)
                    else (Inr True, d1))))"

definition release ::
  "string \<Rightarrow> string \<Rightarrow> int \<Rightarrow> string \<Rightarrow> effects \<Rightarrow> db \<Rightarrow> (error + bool) \<times> db" where
  "release tid k quantity orderId fx d =
     release_after_read tid k quantity orderId fx (getInventoryItem d tid k) d"

definition adjust_after_read ::
  "string \<Rightarrow> string \<Rightarrow> int \<Rightarrow> string \<Rightarrow> string \<Rightarrow> effects \<Rightarrow> Inventory option \<Rightarrow> db
     \<Rightarrow> (error + unit) \<times> db" where
  "adjust_after_read tid k quantity reason by fx current d =
     (case current of
        None \<Rightarrow> (Inl InventoryNotFound, d)
      | Some cur \<Rightarrow>
          (let newStock = stock cur + quantity
           in if newStock < 0 then (Inl NegativeStock, d)
              else
                (let (changes, d1) = update_inventory (\<lambda>i. i\<lparr>i_stock := newStock\<rparr>)
                                       (now1 fx) tid k (version cur) d
                 in if changes = 0 then (Inl ConcurrentModification, d1)
                    else (case logInventoryEvent
                                 \<lparr>ie_id = uuid fx, ie_teamId = tid, ie_sku = k,
                                  ie_type = ''adjusted'', ie_quantity = quantity,
                                  ie_previousStock = stock cur, ie_newStock = newStock,
                                  ie_by = by, ie_createdAt = now2 fx\<rparr> d1 of
                            Inl e \<Rightarrow> (Inl e, d1)
                          | Inr d2 \<Rightarrow> (Inr (), d2)))))"

definition adjust ::
  "string \<Rightarrow> string \<Rightarrow> int \<Rightarrow> string \<Rightarrow> string \<Rightarrow> effects \<Rightarrow> db \<Rightarrow> (error + unit) \<times> db" where
  "adjust tid k quantity reason by fx d =
     adjust_after_read tid k quantity reason by fx (getInventoryItem d tid k) d"

text \<open>\<^verbatim>\<open>initializeTeamInventory\<close>: one \<^verbatim>\<open>INSERT OR IGNORE\<close> per row of \<^verbatim>\<open>skus\<close>, with
  \<^verbatim>\<open>reserved = 0\<close> and \<^verbatim>\<open>version = 1\<close>; a key that is taken is left as it is.\<close>

definition insert_or_ignore :: "string \<Rightarrow> string \<Rightarrow> sku_row \<Rightarrow> db \<Rightarrow> db" where
  "insert_or_ignore tid now s d =
     (case inventory d (tid, s_sku s) of
        Some _ \<Rightarrow> d
      | None \<Rightarrow> d\<lparr>inventory := (inventory d)((tid, s_sku s) \<mapsto>
                     \<lparr>i_stock = s_initial_stock s, i_reserved = 0, i_version = 1,
                      i_updated_at = now\<rparr>)\<rparr>)"

definition initializeTeamInventory :: "string \<Rightarrow> effects \<Rightarrow> db \<Rightarrow> db" where
  "initializeTeamInventory tid fx d = fold (insert_or_ignore tid (now1 fx)) (skus d) d"

text \<open>The audit rows that \<^verbatim>\<open>reserve\<close> and \<^verbatim>\<open>restock\<close> hand to \<^verbatim>\<open>logInventoryEvent\<close>.\<close>

definition reserved_entry :: "ReserveDTO \<Rightarrow> effects \<Rightarrow> int \<Rightarrow> InventoryEvent" where
  "reserved_entry dto fx st =
     \<lparr>ie_id = uuid fx, ie_teamId = rv_teamId dto, ie_sku = rv_sku dto,
      ie_type = ''reserved'', ie_quantity = rv_quantity dto,
      ie_previousStock = st, ie_newStock = st,
      ie_by = ''system'', ie_createdAt = now2 fx\<rparr>"


section \<open>Event log (EventService)\<close>

text \<open>
  \<^verbatim>\<open>processedAt?: string\<close> has three states at run time: the property is absent
  (\<^verbatim>\<open>undefined\<close>), it is \<^verbatim>\<open>null\<close> (what \<^verbatim>\<open>mapRowToEvent\<close> copies from a NULL column),
  or it is a string.
\<close>

datatype optional_string = Undefined | Null | Str string

record Event =
  ev_id :: string
  ev_teamId :: string
  ev_type :: string
  ev_payload :: json
  ev_createdAt :: string
  ev_processedAt :: optional_string
  ev_metadata :: "EventMetadata option"

record CreateEventDTO =
  dto_teamId :: string
  dto_type :: string
  dto_payload :: json
  dto_metadata :: "EventMetadata option"

record EventFilters =
  f_type :: "string option"
  f_since :: "string option"
  f_limit :: "int option"

text \<open>\<^verbatim>\<open>mapRowToEvent\<close>: \<^verbatim>\<open>processedAt: row.processed_at\<close> is \<^verbatim>\<open>null\<close> for a NULL
  column.\<close>

definition mapRowToEvent :: "event_row \<Rightarrow> Event" where
  "mapRowToEvent row =
     \<lparr>ev_id = e_id row, ev_teamId = e_team_id row, ev_type = e_type row,
      ev_payload = e_payload row, ev_createdAt = e_created_at row,
      ev_processedAt = (case e_processed_at row of None \<Rightarrow> Null | Some t \<Rightarrow> Str t),
      ev_metadata = e_metadata row\<rparr>"

definition getEventById :: "db \<Rightarrow> string \<Rightarrow> Event option" where
  "getEventById d eventId =
     (case find (\<lambda>row. e_id row = eventId) (events d) of
        None \<Rightarrow> None
      | Some row \<Rightarrow> Some (mapRowToEvent row))"

text \<open>\<^verbatim>\<open>createEvent\<close>: the id is \<^verbatim>\<open>uuidv4()\<close>, drawn inside the method; the DTO has no
  id field. The INSERT comes after the lookup of that id found nothing, so it is never
  refused. The object returned after the INSERT has no \<^verbatim>\<open>processedAt\<close> property; the one
  returned by the lookup comes from \<^verbatim>\<open>mapRowToEvent\<close>.\<close>

definition createEvent :: "CreateEventDTO \<Rightarrow> effects \<Rightarrow> db \<Rightarrow> (error + Event) \<times> db" where
  "createEvent dto fx d =
     (let eventId = uuid fx; now = now1 fx
      in case getEventById d eventId of
           Some existing \<Rightarrow> (Inr existing, d)
         | None \<Rightarrow>
             (Inr \<lparr>ev_id = eventId, ev_teamId = dto_teamId dto, ev_type = dto_type dto,
                   ev_payload = dto_payload dto, ev_createdAt = now,
                   ev_processedAt = Undefined, ev_metadata = dto_metadata dto\<rparr>,
              d\<lparr>events := events d @
                   [\<lparr>e_id = eventId, e_team_id = dto_teamId dto, e_type = dto_type dto,
                     e_payload = dto_payload dto, e_created_at = now,
                     e_processed_at = None, e_metadata = dto_metadata dto\<rparr>]\<rparr>))"

definition replayEvent :: "string \<Rightarrow> string option \<Rightarrow> effects \<Rightarrow> db \<Rightarrow> (error + Event) \<times> db" where
  "replayEvent eventId delayUntil fx d =
     (case getEventById d eventId of
        None \<Rightarrow> (Inl EventNotFound, d)
      | Some original \<Rightarrow>
          createEvent
            \<lparr>dto_teamId = ev_teamId original, dto_type = ev_type original,
             dto_payload = ev_payload original,
             dto_metadata = Some \<lparr>correlationId = None, causationId = None,
                                  replayOf = Some eventId, delayedUntil = delayUntil,
                                  outOfOrder = None\<rparr>\<rparr> fx d)"

text \<open>\<^verbatim>\<open>markAsProcessed\<close>: \<^verbatim>\<open>UPDATE events SET processed_at = ? WHERE id = ?\<close>, with the
  clock's reading; the method looks at neither the row nor the number of rows changed.\<close>

definition markAsProcessed :: "string \<Rightarrow> effects \<Rightarrow> db \<Rightarrow> (error + unit) \<times> db" where
  "markAsProcessed eventId fx d =
     (Inr (),
      d\<lparr>events := map (\<lambda>row. if e_id row = eventId
                               then row\<lparr>e_processed_at := Some (now1 fx)\<rparr> else row)
                      (events d)\<rparr>)"

text \<open>
  \<^verbatim>\<open>getEvents\<close> builds its query from the filters that are truthy: an empty string and the
  number 0 are not. \<^verbatim>\<open>ORDER BY created_at DESC\<close> is a stable descending sort: rows with
  equal \<^verbatim>\<open>created_at\<close> stay in insertion order, as SQLite returns them (SQL itself leaves
  their order open). \<^verbatim>\<open>LIMIT n\<close> keeps the first \<open>n\<close> rows;
  SQLite reads a negative \<open>n\<close> as no limit.
\<close>

definition truthy_string :: "string option \<Rightarrow> bool" where
  "truthy_string x = (case x of None \<Rightarrow> False | Some s \<Rightarrow> s \<noteq> [])"

definition truthy_number :: "int option \<Rightarrow> bool" where
  "truthy_number x = (case x of None \<Rightarrow> False | Some n \<Rightarrow> n \<noteq> 0)"

definition order_by_created_at_desc :: "event_row list \<Rightarrow> event_row list" where
  "order_by_created_at_desc rows = rev (sort_key e_created_at (rev rows))"

definition sql_limit :: "int \<Rightarrow> 'a list \<Rightarrow> 'a list" where
  "sql_limit n rows = (if n < 0 then rows else take (nat n) rows)"

definition getEvents :: "db \<Rightarrow> string \<Rightarrow> EventFilters option \<Rightarrow> Event list" where
  "getEvents d tid filters =
     (let rows0 = filter (\<lambda>row. e_team_id row = tid) (events d);
          rows1 = (if truthy_string (Option.bind filters f_type)
                   then filter (\<lambda>row. Some (e_type row) = Option.bind filters f_type) rows0
                   else rows0);
          rows2 = (if truthy_string (Option.bind filters f_since)
                   then filter (\<lambda>row. case Option.bind filters f_since of
                                          None \<Rightarrow> False
                                        | Some since \<Rightarrow> since < e_created_at row) rows1
                   else rows1);
          rows3 = order_by_created_at_desc rows2;
          rows4 = (if truthy_number (Option.bind filters f_limit)
                   then (case Option.bind filters f_limit of
                           None \<Rightarrow> rows3
                         | Some n \<Rightarrow> sql_limit n rows3)
                   else rows3)
      in map mapRowToEvent rows4)"

section \<open>Payload validation (utils/validation)\<close>

text \<open>
  \<open>property v key\<close> is the JavaScript \<^verbatim>\<open>v.key\<close> for the keys the validators read:
  \<open>Inr None\<close> is \<^verbatim>\<open>undefined\<close>, and reading a property of \<^verbatim>\<open>null\<close> throws.
  An array, a string, a number and a boolean have none of these keys.
\<close>

fun property :: "json \<Rightarrow> string \<Rightarrow> error + json option" where
  "property JNull key = Inl TypeError"
| "property (JObject members) key = Inr (map_of members key)"
| "property v key = Inr None"

fun typeof :: "json option \<Rightarrow> string" where
  "typeof None = ''undefined''"
| "typeof (Some JNull) = ''object''"
| "typeof (Some (JBool b)) = ''boolean''"
| "typeof (Some (JNumber n)) = ''number''"
| "typeof (Some (JString s)) = ''string''"
| "typeof (Some (JArray xs)) = ''object''"
| "typeof (Some (JObject members)) = ''object''"

text \<open>\<^verbatim>\<open>items.every(item => typeof item.sku === 'string' && typeof item.qty === 'number')\<close>:
  stops at the first item that fails.\<close>

fun every_item :: "json list \<Rightarrow> error + bool" where
  "every_item [] = Inr True"
| "every_item (item # rest) =
     (case property item ''sku'' of
        Inl e \<Rightarrow> Inl e
      | Inr s \<Rightarrow>
          if typeof s = ''string''
          then (case property item ''qty'' of
                  Inl e \<Rightarrow> Inl e
                | Inr q \<Rightarrow> if typeof q = ''number'' then every_item rest else Inr False)
          else Inr False)"

definition is_object :: "json \<Rightarrow> bool" where
  "is_object payload = (typeof (Some payload) = ''object'' \<and> payload \<noteq> JNull)"

definition validateOrderPayload :: "json \<Rightarrow> error + bool" where
  "validateOrderPayload payload =
     (if is_object payload
      then (case property payload ''orderId'' of
              Inl e \<Rightarrow> Inl e
            | Inr oid \<Rightarrow>
                if typeof oid = ''string''
                then (case property payload ''items'' of
                        Inl e \<Rightarrow> Inl e
                      | Inr (Some (JArray items)) \<Rightarrow> every_item items
                      | Inr _ \<Rightarrow> Inr False)
                else Inr False)
      else Inr False)"

definition validateOrderCancellationPayload :: "json \<Rightarrow> error + bool" where
  "validateOrderCancellationPayload payload =
     (if is_object payload
      then (case property payload ''orderId'' of
              Inl e \<Rightarrow> Inl e
            | Inr oid \<Rightarrow> Inr (typeof oid = ''string''))
      else Inr False)"

definition validateInventoryPayload :: "json \<Rightarrow> error + bool" where
  "validateInventoryPayload payload =
     (if is_object payload
      then (case property payload ''sku'' of
              Inl e \<Rightarrow> Inl e
            | Inr s \<Rightarrow>
                if typeof s = ''string''
                then (case property payload ''quantity'' of
                        Inl e \<Rightarrow> Inl e
                      | Inr q \<Rightarrow> Inr (typeof q = ''number''))
                else Inr False)
      else Inr False)"

definition validateEventPayload :: "string \<Rightarrow> json \<Rightarrow> error + bool" where
  "validateEventPayload type payload =
     (if type = ''order.created'' \<or> type = ''order.paid''
      then validateOrderPayload payload
      else if type = ''order.cancelled'' \<or> type = ''order.refund_requested''
              \<or> type = ''order.dispute_opened''
      then validateOrderCancellationPayload payload
      else if type = ''inventory.restocked'' \<or> type = ''inventory.manual_adjusted''
      then validateInventoryPayload payload
      else Inr True)"


section \<open>The four mutations as one call\<close>

text \<open>
  The coordinator calls one of four mutating methods. \<open>mutation\<close> names the call with its
  arguments, \<open>mutation_key\<close> is the (team, sku) pair it addresses, and \<open>mutate_after_read\<close>
  is the rest of the method after its read, with \<^verbatim>\<open>void\<close> returned as \<open>True\<close>:
  the result \<open>Inr True\<close> says that the write was done and the method returned normally.
  \<open>reaches_update\<close> is the condition under which the method, given its snapshot, gets to
  its UPDATE statement: the conjunction of the checks it makes before.
\<close>

datatype mutation =
    Restock RestockDTO
  | Reserve ReserveDTO
  | Release string string int string
  | Adjust string string int string string

fun mutation_key :: "mutation \<Rightarrow> string \<times> string" where
  "mutation_key (Restock dto) = (rs_teamId dto, rs_sku dto)"
| "mutation_key (Reserve dto) = (rv_teamId dto, rv_sku dto)"
| "mutation_key (Release tid k quantity orderId) = (tid, k)"
| "mutation_key (Adjust tid k quantity reason by) = (tid, k)"

definition completed :: "(error + unit) \<times> db \<Rightarrow> (error + bool) \<times> db" where
  "completed r = (case fst r of Inl e \<Rightarrow> (Inl e, snd r) | Inr u \<Rightarrow> (Inr True, snd r))"

fun mutate_after_read ::
  "mutation \<Rightarrow> effects \<Rightarrow> Inventory option \<Rightarrow> db \<Rightarrow> (error + bool) \<times> db" where
  "mutate_after_read (Restock dto) fx current d = completed (restock_after_read dto fx current d)"
| "mutate_after_read (Reserve dto) fx current d = reserve_after_read dto fx current d"
| "mutate_after_read (Release tid k quantity orderId) fx current d =
     release_after_read tid k quantity orderId fx current d"
| "mutate_after_read (Adjust tid k quantity reason by) fx current d =
     completed (adjust_after_read tid k quantity reason by fx current d)"

fun reaches_update :: "mutation \<Rightarrow> Inventory \<Rightarrow> bool" where
  "reaches_update (Restock dto) cur = True"
| "reaches_update (Reserve dto) cur = (\<not> available cur < rv_quantity dto)"
| "reaches_update (Release tid k quantity orderId) cur =
     (\<not> (stock cur - quantity < 0 \<or> reserved cur - quantity < 0))"
| "reaches_update (Adjust tid k quantity reason by) cur = (\<not> stock cur + quantity < 0)"

text \<open>Other calls that run, with whatever snapshots they hold, one after the other.\<close>

fun run_steps :: "(mutation \<times> effects \<times> Inventory option) list \<Rightarrow> db \<Rightarrow> db" where
  "run_steps [] d = d"
| "run_steps ((m, fx, current) # rest) d =
     run_steps rest (snd (mutate_after_read m fx current d))"

section \<open>What the specification asks for\<close>

text \<open>The invariant of an inventory record, as the data model words it.\<close>

definition ledger_invariant :: "Inventory \<Rightarrow> bool" where
  "ledger_invariant r =
     (0 \<le> stock r \<and> 0 \<le> reserved r \<and> reserved r \<le> stock r
      \<and> available r = stock r - reserved r)"

text \<open>
  The required shapes as the interface table words them, to be compared with the
  validators: an object with a string (a numeric) member; an object whose \<^verbatim>\<open>items\<close> is an
  array of objects with a string \<^verbatim>\<open>sku\<close> and a numeric \<^verbatim>\<open>qty\<close>; and per type group
  \<^item> \<^verbatim>\<open>order.created\<close>, \<^verbatim>\<open>order.paid\<close>: string \<^verbatim>\<open>orderId\<close> and such \<^verbatim>\<open>items\<close>;
  \<^item> \<^verbatim>\<open>order.cancelled\<close>, \<^verbatim>\<open>order.refund_requested\<close>, \<^verbatim>\<open>order.dispute_opened\<close>: string \<^verbatim>\<open>orderId\<close>;
  \<^item> \<^verbatim>\<open>inventory.restocked\<close>, \<^verbatim>\<open>inventory.manual_adjusted\<close>: string \<^verbatim>\<open>sku\<close>, numeric \<^verbatim>\<open>quantity\<close>;
  \<^item> any other type: accepted.
\<close>

definition has_string :: "json \<Rightarrow> string \<Rightarrow> bool" where
  "has_string v key =
     (case v of
        JObject members \<Rightarrow> (case map_of members key of Some (JString s) \<Rightarrow> True | _ \<Rightarrow> False)
      | _ \<Rightarrow> False)"

definition has_number :: "json \<Rightarrow> string \<Rightarrow> bool" where
  "has_number v key =
     (case v of
        JObject members \<Rightarrow> (case map_of members key of Some (JNumber n) \<Rightarrow> True | _ \<Rightarrow> False)
      | _ \<Rightarrow> False)"

definition has_items :: "json \<Rightarrow> bool" where
  "has_items v =
     (case v of
        JObject members \<Rightarrow>
          (case map_of members ''items'' of
             Some (JArray items) \<Rightarrow>
               list_all (\<lambda>item. has_string item ''sku'' \<and> has_number item ''qty'') items
           | _ \<Rightarrow> False)
      | _ \<Rightarrow> False)"

definition spec_required_shape :: "string \<Rightarrow> json \<Rightarrow> bool" where
  "spec_required_shape type payload =
     (if type \<in> {''order.created'', ''order.paid''}
      then has_string payload ''orderId'' \<and> has_items payload
      else if type \<in> {''order.cancelled'', ''order.refund_requested'', ''order.dispute_opened''}
      then has_string payload ''orderId''
      else if type \<in> {''inventory.restocked'', ''inventory.manual_adjusted''}
      then has_string payload ''sku'' \<and> has_number payload ''quantity''
      else True)"

section \<open>A concrete store\<close>

text \<open>
  The scenario of the test script: a catalog with the SKU \<^verbatim>\<open>IT-001\<close> (initial stock 20)
  and the team \<^verbatim>\<open>t1\<close>, initialised against it. \<open>draw u t\<close> is a call that draws the
  identifier \<open>u\<close> and reads the time \<open>t\<close>.
\<close>

definition draw :: "string \<Rightarrow> string \<Rightarrow> effects" where
  "draw u t = \<lparr>uuid = u, now1 = t, now2 = t\<rparr>"

definition catalog_db :: db where
  "catalog_db =
     \<lparr>skus = [\<lparr>s_sku = ''IT-001'', s_name = ''NVMe SSD 1TB'', s_category = ''Storage'',
               s_initial_stock = 20\<rparr>],
      inventory = Map.empty, inventory_events = [], events = []\<rparr>"

definition team_db :: db where
  "team_db = initializeTeamInventory ''t1'' (draw [] ''2026-01-03T10:00:00.000Z'') catalog_db"

definition reserve_dto :: "int \<Rightarrow> ReserveDTO" where
  "reserve_dto q = \<lparr>rv_teamId = ''t1'', rv_sku = ''IT-001'', rv_quantity = q, rv_orderId = ''X''\<rparr>"

definition restock_dto :: "int \<Rightarrow> RestockDTO" where
  "restock_dto q = \<lparr>rs_teamId = ''t1'', rs_sku = ''IT-001'', rs_quantity = q, rs_by = ''staff''\<rparr>"

definition team_snapshot :: Inventory where
  "team_snapshot =
     \<lparr>teamId = ''t1'', sku = ''IT-001'', name = ''NVMe SSD 1TB'', stock = 20, reserved = 0,
      available = 20, version = 1, updatedAt = ''2026-01-03T10:00:00.000Z''\<rparr>"

definition after_restock :: db where
  "after_restock = snd (restock (restock_dto 5) (draw ''a1'' ''2026-01-03T11:00:00.000Z'') team_db)"

definition after_reserve :: db where
  "after_reserve = snd (reserve (reserve_dto 10) (draw ''a1'' ''2026-01-03T11:00:00.000Z'') team_db)"

definition after_recount :: db where
  "after_recount =
     snd (adjust ''t1'' ''IT-001'' (- 3) ''recount'' ''staff''
            (draw ''a1'' ''2026-01-03T11:00:00.000Z'') team_db)"

definition after_adjust :: db where
  "after_adjust =
     snd (adjust ''t1'' ''IT-001'' (- 15) ''recount'' ''staff''
            (draw ''a2'' ''2026-01-03T12:00:00.000Z'') after_reserve)"


text \<open>
  Concrete calls on the event log: an \<^verbatim>\<open>order.created\<close> event with a well-formed payload,
  one with the payload \<^verbatim>\<open>{}\<close>, and the same DTO submitted twice, the way a caller retries.
  \<^verbatim>\<open>uuidv4()\<close> gives \<^verbatim>\<open>id-1\<close> to the first call and \<^verbatim>\<open>id-2\<close> to the second.
\<close>

definition order_dto :: CreateEventDTO where
  "order_dto =
     \<lparr>dto_teamId = ''t1'', dto_type = ''order.created'',
      dto_payload = JObject [(''orderId'', JString ''O1''),
                             (''items'', JArray [JObject [(''sku'', JString ''IT-001''),
                                                          (''qty'', JNumber 2)]])],
      dto_metadata = None\<rparr>"


definition first_create :: "(error + Event) \<times> db" where
  "first_create = createEvent order_dto (draw ''id-1'' ''2026-01-03T10:00:00.000Z'') catalog_db"

definition second_create :: "(error + Event) \<times> db" where
  "second_create =
     createEvent order_dto (draw ''id-2'' ''2026-01-03T10:00:05.000Z'') (snd first_create)"

text \<open>
  The first event of the log, marked as processed at 10:01 and again at 10:02.
  \<open>stamp\<close> is the effect of the UPDATE on one row.
\<close>

definition marked_once :: db where
  "marked_once = snd (markAsProcessed ''id-1'' (draw [] ''2026-01-03T10:01:00.000Z'') (snd first_create))"

definition marked_twice :: db where
  "marked_twice = snd (markAsProcessed ''id-1'' (draw [] ''2026-01-03T10:02:00.000Z'') marked_once)"

definition stamp :: "string \<Rightarrow> string \<Rightarrow> event_row \<Rightarrow> event_row" where
  "stamp eventId now row = (if e_id row = eventId then row\<lparr>e_processed_at := Some now\<rparr> else row)"

text \<open>
  A log with \<open>n\<close> events of team \<^verbatim>\<open>t1\<close> under \<open>n\<close> different ids, and the filters
  of a request without query parameters.
\<close>

definition no_filters :: EventFilters where
  "no_filters = \<lparr>f_type = None, f_since = None, f_limit = None\<rparr>"

definition numbered_event :: "nat \<Rightarrow> event_row" where
  "numbered_event k =
     \<lparr>e_id = CHR ''e'' # replicate k (CHR ''1''), e_team_id = ''t1'', e_type = ''order.created'',
      e_payload = JObject [(''orderId'', JString ''O1'')],
      e_created_at = ''2026-01-03T10:00:00.000Z'', e_processed_at = None, e_metadata = None\<rparr>"

definition busy_db :: "nat \<Rightarrow> db" where
  "busy_db n = catalog_db\<lparr>events := map numbered_event [0..<n]\<rparr>"

section \<open>Properties of the inventory ledger\<close>

lemma update_inventory_hit:
  "inventory d (tid, k) = Some i \<Longrightarrow> i_version i = v \<Longrightarrow>
   update_inventory f now tid k v d =
     (1, d\<lparr>inventory := (inventory d)((tid, k) \<mapsto> (f i)\<lparr>i_version := i_version i + 1, i_updated_at := now\<rparr>)\<rparr>)"
  by (simp add: update_inventory_def)

lemma update_inventory_miss:
  "inventory d (tid, k) = Some i \<Longrightarrow> i_version i \<noteq> v \<Longrightarrow>
   update_inventory f now tid k v d = (0, d)"
  by (simp add: update_inventory_def)

lemma getInventoryItem_Some:
  "inventory d (tid, k) = Some i \<Longrightarrow> find (\<lambda>s. s_sku s = k) (skus d) = Some s \<Longrightarrow>
   getInventoryItem d tid k = Some (mapRowToInventory tid s i)"
  by (simp add: getInventoryItem_def)

text \<open>What one mutation does when the stored version differs from the snapshot's.\<close>

lemma stale_restock:
  "inventory d (rs_teamId dto, rs_sku dto) = Some i \<Longrightarrow> i_version i \<noteq> version cur \<Longrightarrow>
   restock_after_read dto fx (Some cur) d = (Inl ConcurrentModification, d)"
  by (simp add: restock_after_read_def update_inventory_miss)

lemma stale_reserve:
  "inventory d (rv_teamId dto, rv_sku dto) = Some i \<Longrightarrow> i_version i \<noteq> version cur \<Longrightarrow>
   reserve_after_read dto fx (Some cur) d =
     (if available cur < rv_quantity dto then (Inr False, d) else (Inl ConcurrentModification, d))"
  by (simp add: reserve_after_read_def update_inventory_miss)

lemma stale_release:
  "inventory d (tid, k) = Some i \<Longrightarrow> i_version i \<noteq> version cur \<Longrightarrow>
   release_after_read tid k q oid fx (Some cur) d =
     (if stock cur - q < 0 \<or> reserved cur - q < 0 then (Inl InvalidRelease, d)
      else (Inl ConcurrentModification, d))"
  by (simp add: release_after_read_def update_inventory_miss Let_def)

lemma stale_adjust:
  "inventory d (tid, k) = Some i \<Longrightarrow> i_version i \<noteq> version cur \<Longrightarrow>
   adjust_after_read tid k q reason by fx (Some cur) d =
     (if stock cur + q < 0 then (Inl NegativeStock, d) else (Inl ConcurrentModification, d))"
  by (simp add: adjust_after_read_def update_inventory_miss Let_def)

lemma stale_mutation:
  assumes "inventory d (mutation_key m) = Some i" and "i_version i \<noteq> version cur"
  shows "snd (mutate_after_read m fx (Some cur) d) = d"
    and "fst (mutate_after_read m fx (Some cur) d) \<noteq> Inr True"
    and "reaches_update m cur \<Longrightarrow>
         fst (mutate_after_read m fx (Some cur) d) = Inl ConcurrentModification"
  using assms
  by (cases m; simp add: completed_def stale_restock stale_reserve stale_release stale_adjust)+

text \<open>What a mutation that completed has done to the version.\<close>

lemma done_restock:
  assumes "inventory d (rs_teamId dto, rs_sku dto) = Some i"
      and "restock_after_read dto fx (Some cur) d = (Inr u, d')"
  shows "i_version i = version cur
         \<and> inventory d' = (inventory d)((rs_teamId dto, rs_sku dto) \<mapsto>
              i\<lparr>i_stock := stock cur + rs_quantity dto,
                i_version := i_version i + 1, i_updated_at := now1 fx\<rparr>)"
proof (cases "i_version i = version cur")
  case False
  with assms show ?thesis by (simp add: stale_restock)
next
  case True
  with assms show ?thesis
    by (auto simp: restock_after_read_def update_inventory_hit logInventoryEvent_def Let_def
             split: if_splits)
qed

lemma done_reserve:
  assumes "inventory d (rv_teamId dto, rv_sku dto) = Some i"
      and "reserve_after_read dto fx (Some cur) d = (Inr True, d')"
  shows "i_version i = version cur
         \<and> inventory d' = (inventory d)((rv_teamId dto, rv_sku dto) \<mapsto>
              i\<lparr>i_reserved := reserved cur + rv_quantity dto,
                i_version := i_version i + 1, i_updated_at := now1 fx\<rparr>)"
proof (cases "i_version i = version cur")
  case False
  with assms show ?thesis by (simp add: stale_reserve split: if_splits)
next
  case True
  with assms show ?thesis
    by (auto simp: reserve_after_read_def update_inventory_hit logInventoryEvent_def Let_def
             split: if_splits)
qed

lemma done_release:
  assumes "inventory d (tid, k) = Some i"
      and "release_after_read tid k q oid fx (Some cur) d = (Inr True, d')"
  shows "i_version i = version cur
         \<and> inventory d' = (inventory d)((tid, k) \<mapsto>
              i\<lparr>i_stock := stock cur - q, i_reserved := reserved cur - q,
                i_version := i_version i + 1, i_updated_at := now1 fx\<rparr>)"
proof (cases "i_version i = version cur")
  case False
  with assms show ?thesis by (simp add: stale_release split: if_splits)
next
  case True
  with assms show ?thesis
    by (auto simp: release_after_read_def update_inventory_hit Let_def split: if_splits)
qed

lemma done_adjust:
  assumes "inventory d (tid, k) = Some i"
      and "adjust_after_read tid k q reason by fx (Some cur) d = (Inr u, d')"
  shows "i_version i = version cur
         \<and> inventory d' = (inventory d)((tid, k) \<mapsto>
              i\<lparr>i_stock := stock cur + q,
                i_version := i_version i + 1, i_updated_at := now1 fx\<rparr>)"
proof (cases "i_version i = version cur")
  case False
  with assms show ?thesis by (simp add: stale_adjust split: if_splits)
next
  case True
  with assms show ?thesis
    by (auto simp: adjust_after_read_def update_inventory_hit logInventoryEvent_def Let_def
             split: if_splits)
qed

lemma completed_True:
  "completed r = (Inr True, d') \<longleftrightarrow> r = (Inr (), d')"
  by (cases r) (auto simp: completed_def split: sum.splits)

lemma done_mutation:
  assumes "inventory d (mutation_key m) = Some i"
      and "mutate_after_read m fx (Some cur) d = (Inr True, d')"
  shows "i_version i = version cur
         \<and> map_option i_version (inventory d' (mutation_key m)) = Some (i_version i + 1)"
proof (cases m)
  case (Restock dto)
  with assms done_restock [of d dto i fx cur "()" d'] show ?thesis
    by (simp add: completed_True)
next
  case (Reserve dto)
  with assms done_reserve [of d dto i fx cur d'] show ?thesis by simp
next
  case (Release tid k q oid)
  with assms done_release [of d tid k i q oid fx cur d'] show ?thesis by simp
next
  case (Adjust tid k q reason actor)
  with assms done_adjust [of d tid k i q reason actor fx cur "()" d'] show ?thesis
    by (simp add: completed_True)
qed

text \<open>The version of a record never goes down, whatever mutations are attempted.\<close>

lemma update_inventory_version:
  assumes "inventory d key = Some i"
  shows "\<exists>i'. inventory (snd (update_inventory f now tid k v d)) key = Some i'
           \<and> i_version i \<le> i_version i'"
  using assms by (auto simp: update_inventory_def split: option.splits)

lemma logInventoryEvent_same_inventory:
  "inventory (case logInventoryEvent ev d1 of Inl e \<Rightarrow> d1 | Inr d2 \<Rightarrow> d2) = inventory d1"
  by (simp add: logInventoryEvent_def)

lemma restock_version:
  assumes "inventory d key = Some i"
  shows "\<exists>i'. inventory (snd (restock_after_read dto fx current d)) key = Some i'
           \<and> i_version i \<le> i_version i'"
proof (cases current)
  case None
  with assms show ?thesis by (simp add: restock_after_read_def)
next
  case (Some cur)
  let ?u = "update_inventory (\<lambda>i. i\<lparr>i_stock := stock cur + rs_quantity dto\<rparr>)
              (now1 fx) (rs_teamId dto) (rs_sku dto) (version cur) d"
  have "inventory (snd (restock_after_read dto fx current d)) = inventory (snd ?u)"
    by (simp add: restock_after_read_def Some Let_def split_beta logInventoryEvent_def)
  with update_inventory_version [OF assms] show ?thesis by simp
qed

lemma reserve_version:
  assumes "inventory d key = Some i"
  shows "\<exists>i'. inventory (snd (reserve_after_read dto fx current d)) key = Some i'
           \<and> i_version i \<le> i_version i'"
proof (cases current)
  case None
  with assms show ?thesis by (simp add: reserve_after_read_def)
next
  case (Some cur)
  let ?u = "update_inventory (\<lambda>i. i\<lparr>i_reserved := reserved cur + rv_quantity dto\<rparr>)
              (now1 fx) (rv_teamId dto) (rv_sku dto) (version cur) d"
  have "inventory (snd (reserve_after_read dto fx current d)) = inventory (snd ?u)
        \<or> snd (reserve_after_read dto fx current d) = d"
    by (simp add: reserve_after_read_def Some Let_def split_beta logInventoryEvent_def)
  with update_inventory_version [OF assms] assms show ?thesis by auto
qed

lemma release_version:
  assumes "inventory d key = Some i"
  shows "\<exists>i'. inventory (snd (release_after_read tid k q oid fx current d)) key = Some i'
           \<and> i_version i \<le> i_version i'"
proof (cases current)
  case None
  with assms show ?thesis by (simp add: release_after_read_def)
next
  case (Some cur)
  let ?u = "update_inventory (\<lambda>i. i\<lparr>i_stock := stock cur - q, i_reserved := reserved cur - q\<rparr>)
              (now1 fx) tid k (version cur) d"
  have "inventory (snd (release_after_read tid k q oid fx current d)) = inventory (snd ?u)
        \<or> snd (release_after_read tid k q oid fx current d) = d"
    by (simp add: release_after_read_def Some Let_def split_beta)
  with update_inventory_version [OF assms] assms show ?thesis by auto
qed

lemma adjust_version:
  assumes "inventory d key = Some i"
  shows "\<exists>i'. inventory (snd (adjust_after_read tid k q reason actor fx current d)) key = Some i'
           \<and> i_version i \<le> i_version i'"
proof (cases current)
  case None
  with assms show ?thesis by (simp add: adjust_after_read_def)
next
  case (Some cur)
  let ?u = "update_inventory (\<lambda>i. i\<lparr>i_stock := stock cur + q\<rparr>)
              (now1 fx) tid k (version cur) d"
  have "inventory (snd (adjust_after_read tid k q reason actor fx current d)) = inventory (snd ?u)
        \<or> snd (adjust_after_read tid k q reason actor fx current d) = d"
    by (simp add: adjust_after_read_def Some Let_def split_beta logInventoryEvent_def)
  with update_inventory_version [OF assms] assms show ?thesis by auto
qed

lemma snd_completed: "snd (completed r) = snd r"
  by (simp add: completed_def split: sum.splits)

lemma mutation_version:
  assumes "inventory d key = Some i"
  shows "\<exists>i'. inventory (snd (mutate_after_read m fx current d)) key = Some i'
           \<and> i_version i \<le> i_version i'"
  using restock_version [OF assms] reserve_version [OF assms] release_version [OF assms]
    adjust_version [OF assms]
  by (cases m) (simp_all add: snd_completed)

lemma run_steps_version:
  assumes "inventory d key = Some i"
  shows "\<exists>i'. inventory (run_steps steps d) key = Some i' \<and> i_version i \<le> i_version i'"
  using assms
proof (induction steps arbitrary: d i)
  case Nil
  then show ?case by simp
next
  case (Cons step steps)
  obtain m fx current where step: "step = (m, fx, current)" by (cases step) auto
  from mutation_version [OF Cons.prems, of m fx current]
  obtain j where j: "inventory (snd (mutate_after_read m fx current d)) key = Some j"
    and le: "i_version i \<le> i_version j" by blast
  from Cons.IH [OF j] obtain i' where
    "inventory (run_steps steps (snd (mutate_after_read m fx current d))) key = Some i'"
    and "i_version j \<le> i_version i'" by blast
  with le step show ?case by auto
qed

text \<open>
  Claim C3. A mutation runs against a record \<open>i\<close> that exists, with the snapshot \<open>cur\<close> it
  read before. If it completes, the stored version was the snapshot's and is one higher
  afterwards. If the stored version is not the snapshot's, the store is left as it was and
  the mutation does not complete; when it gets to its UPDATE, the error is
  \<open>ConcurrentModification\<close>. Of two mutations of one record that read the same version,
  the second is refused in this way once the first has completed, whatever other mutations
  \<open>steps\<close> ran in between: they never both complete.
\<close>

theorem version_guard:
  assumes row: "inventory d (mutation_key m) = Some i"
  shows "(mutate_after_read m fx (Some cur) d = (Inr True, d') \<longrightarrow>
            i_version i = version cur
            \<and> map_option i_version (inventory d' (mutation_key m)) = Some (i_version i + 1))
       \<and> (i_version i \<noteq> version cur \<longrightarrow>
            snd (mutate_after_read m fx (Some cur) d) = d
            \<and> fst (mutate_after_read m fx (Some cur) d) \<noteq> Inr True
            \<and> (reaches_update m cur \<longrightarrow>
                 fst (mutate_after_read m fx (Some cur) d) = Inl ConcurrentModification))
       \<and> (mutate_after_read m fx (Some cur) d = (Inr True, d')
            \<and> mutation_key m2 = mutation_key m \<and> version cur2 = version cur \<longrightarrow>
            snd (mutate_after_read m2 fx2 (Some cur2) (run_steps steps d')) = run_steps steps d'
            \<and> fst (mutate_after_read m2 fx2 (Some cur2) (run_steps steps d')) \<noteq> Inr True
            \<and> (reaches_update m2 cur2 \<longrightarrow>
                 fst (mutate_after_read m2 fx2 (Some cur2) (run_steps steps d'))
                   = Inl ConcurrentModification))"
proof (intro conjI impI)
  assume ok: "mutate_after_read m fx (Some cur) d = (Inr True, d')"
  from done_mutation [OF row ok]
  show "i_version i = version cur"
    and "map_option i_version (inventory d' (mutation_key m)) = Some (i_version i + 1)"
    by blast+
next
  assume stale: "i_version i \<noteq> version cur"
  from stale_mutation [OF row stale]
  show "snd (mutate_after_read m fx (Some cur) d) = d"
    and "fst (mutate_after_read m fx (Some cur) d) \<noteq> Inr True"
    by simp_all
  assume "reaches_update m cur"
  with stale_mutation(3) [OF row stale]
  show "fst (mutate_after_read m fx (Some cur) d) = Inl ConcurrentModification" by simp
next
  assume both: "mutate_after_read m fx (Some cur) d = (Inr True, d')
                  \<and> mutation_key m2 = mutation_key m \<and> version cur2 = version cur"
  then have ok: "mutate_after_read m fx (Some cur) d = (Inr True, d')"
    and key: "mutation_key m2 = mutation_key m" and same: "version cur2 = version cur"
    by simp_all
  from done_mutation [OF row ok] key same
  obtain i1 where row1: "inventory d' (mutation_key m2) = Some i1"
    and next1: "i_version i1 = version cur2 + 1"
    by (cases "inventory d' (mutation_key m)") auto
  from run_steps_version [OF row1, of steps]
  obtain i2 where row2: "inventory (run_steps steps d') (mutation_key m2) = Some i2"
    and "i_version i1 \<le> i_version i2" by blast
  with next1 have stale2: "i_version i2 \<noteq> version cur2" by simp
  from stale_mutation [OF row2 stale2]
  show "snd (mutate_after_read m2 fx2 (Some cur2) (run_steps steps d')) = run_steps steps d'"
    and "fst (mutate_after_read m2 fx2 (Some cur2) (run_steps steps d')) \<noteq> Inr True"
    by simp_all
  assume "reaches_update m2 cur2"
  with stale_mutation(3) [OF row2 stale2]
  show "fst (mutate_after_read m2 fx2 (Some cur2) (run_steps steps d'))
          = Inl ConcurrentModification" by simp
qed

lemma team_db_eq:
  "team_db = catalog_db\<lparr>inventory := [(''t1'', ''IT-001'') \<mapsto>
      \<lparr>i_stock = 20, i_reserved = 0, i_version = 1,
       i_updated_at = ''2026-01-03T10:00:00.000Z''\<rparr>]\<rparr>"
  by (simp add: team_db_def initializeTeamInventory_def insert_or_ignore_def catalog_db_def
        draw_def)

lemma team_db_row:
  "inventory team_db (''t1'', ''IT-001'') =
     Some \<lparr>i_stock = 20, i_reserved = 0, i_version = 1,
           i_updated_at = ''2026-01-03T10:00:00.000Z''\<rparr>"
  by (simp add: team_db_eq)

lemma team_db_sku:
  "find (\<lambda>s. s_sku s = ''IT-001'') (skus team_db) =
     Some \<lparr>s_sku = ''IT-001'', s_name = ''NVMe SSD 1TB'', s_category = ''Storage'',
           s_initial_stock = 20\<rparr>"
  by (simp add: team_db_eq catalog_db_def)

lemma team_db_audit: "inventory_events team_db = []"
  by (simp add: team_db_eq catalog_db_def)

text \<open>
  Claim C5. \<^verbatim>\<open>reserve\<close> on an existing record, with a new identifier for the audit
  row: when \<open>available < quantity\<close> it returns \<^verbatim>\<open>false\<close>, throws nothing and leaves the
  store as it was; otherwise it returns \<^verbatim>\<open>true\<close>, the record has \<open>reserved + quantity\<close>
  and the next version, and the audit table has one more row, of type \<^verbatim>\<open>reserved\<close>.
  The second equation is the same call resumed on a store that another writer may have
  changed since the read: the write is done only if the version is still the snapshot's.
\<close>

theorem reserve_outcome:
  assumes row: "inventory d (rv_teamId dto, rv_sku dto) = Some i"
      and cat: "find (\<lambda>s. s_sku s = rv_sku dto) (skus d) = Some s"
      and fresh: "uuid fx \<notin> set (map ie_id (inventory_events d))"
  shows "reserve dto fx d =
           (if i_stock i - i_reserved i < rv_quantity dto then (Inr False, d)
            else (Inr True,
                  d\<lparr>inventory := (inventory d)((rv_teamId dto, rv_sku dto) \<mapsto>
                       i\<lparr>i_reserved := i_reserved i + rv_quantity dto,
                         i_version := i_version i + 1, i_updated_at := now1 fx\<rparr>),
                    inventory_events := inventory_events d @ [reserved_entry dto fx (i_stock i)]\<rparr>))
         \<and> reserve_after_read dto fx (Some cur) d =
           (if available cur < rv_quantity dto then (Inr False, d)
            else if i_version i = version cur
            then (Inr True,
                  d\<lparr>inventory := (inventory d)((rv_teamId dto, rv_sku dto) \<mapsto>
                       i\<lparr>i_reserved := reserved cur + rv_quantity dto,
                         i_version := i_version i + 1, i_updated_at := now1 fx\<rparr>),
                    inventory_events := inventory_events d @ [reserved_entry dto fx (stock cur)]\<rparr>)
            else (Inl ConcurrentModification, d))"
  using assms
  by (simp add: reserve_def reserve_after_read_def getInventoryItem_Some mapRowToInventory_def
        update_inventory_def logInventoryEvent_def reserved_entry_def Let_def)

theorem reserve_outcome_witness:
  "inventory team_db (rv_teamId (reserve_dto 30), rv_sku (reserve_dto 30)) \<noteq> None
   \<and> find (\<lambda>s. s_sku s = rv_sku (reserve_dto 30)) (skus team_db) \<noteq> None
   \<and> uuid (draw ''a1'' ''2026-01-03T11:00:00.000Z'') \<notin> set (map ie_id (inventory_events team_db))
   \<and> reserve (reserve_dto 30) (draw ''a1'' ''2026-01-03T11:00:00.000Z'') team_db
       = (Inr False, team_db)
   \<and> fst (reserve (reserve_dto 10) (draw ''a1'' ''2026-01-03T11:00:00.000Z'') team_db)
       = Inr True
   \<and> map_option i_reserved
        (inventory (snd (reserve (reserve_dto 10) (draw ''a1'' ''2026-01-03T11:00:00.000Z'')
           team_db)) (''t1'', ''IT-001'')) = Some 10
   \<and> map ie_type (inventory_events (snd (reserve (reserve_dto 10)
        (draw ''a1'' ''2026-01-03T11:00:00.000Z'') team_db))) = [''reserved'']"
proof -
  have row: "inventory team_db (rv_teamId (reserve_dto q), rv_sku (reserve_dto q)) =
     Some \<lparr>i_stock = 20, i_reserved = 0, i_version = 1,
           i_updated_at = ''2026-01-03T10:00:00.000Z''\<rparr>" for q
    by (simp add: reserve_dto_def team_db_row)
  have cat: "find (\<lambda>s. s_sku s = rv_sku (reserve_dto q)) (skus team_db) =
     Some \<lparr>s_sku = ''IT-001'', s_name = ''NVMe SSD 1TB'', s_category = ''Storage'',
           s_initial_stock = 20\<rparr>" for q
    by (simp add: reserve_dto_def team_db_sku)
  have fresh: "uuid (draw ''a1'' ''2026-01-03T11:00:00.000Z'')
                 \<notin> set (map ie_id (inventory_events team_db))"
    by (simp add: team_db_audit)
  from reserve_outcome [OF row cat fresh, of 30] reserve_outcome [OF row cat fresh, of 10]
    row cat fresh
  show ?thesis
    by (simp add: reserve_dto_def reserved_entry_def team_db_audit)
qed

lemma team_db_item: "getInventoryItem team_db ''t1'' ''IT-001'' = Some team_snapshot"
  by (simp add: getInventoryItem_Some [OF team_db_row team_db_sku] mapRowToInventory_def
        team_snapshot_def)

lemma after_restock_eq:
  "restock (restock_dto 5) (draw ''a1'' ''2026-01-03T11:00:00.000Z'') team_db =
     (Inr (), after_restock)"
  "inventory after_restock (''t1'', ''IT-001'') =
     Some \<lparr>i_stock = 25, i_reserved = 0, i_version = 2,
           i_updated_at = ''2026-01-03T11:00:00.000Z''\<rparr>"
  by (simp_all add: after_restock_def restock_def restock_after_read_def team_db_item
        team_snapshot_def update_inventory_def team_db_row logInventoryEvent_def team_db_audit
        restock_dto_def draw_def Let_def)

lemma after_reserve_eq:
  "reserve (reserve_dto 10) (draw ''a1'' ''2026-01-03T11:00:00.000Z'') team_db =
     (Inr True, after_reserve)"
  "inventory after_reserve (''t1'', ''IT-001'') =
     Some \<lparr>i_stock = 20, i_reserved = 10, i_version = 2,
           i_updated_at = ''2026-01-03T11:00:00.000Z''\<rparr>"
  "skus after_reserve = skus team_db"
  "map ie_id (inventory_events after_reserve) = [''a1'']"
  by (simp_all add: after_reserve_def reserve_def reserve_after_read_def team_db_item
        team_snapshot_def update_inventory_def team_db_row logInventoryEvent_def team_db_audit
        reserve_dto_def draw_def Let_def)

theorem version_guard_witness:
  "inventory team_db (mutation_key (Restock (restock_dto 5))) \<noteq> None
   \<and> mutate_after_read (Restock (restock_dto 5)) (draw ''a1'' ''2026-01-03T11:00:00.000Z'')
        (Some team_snapshot) team_db = (Inr True, after_restock)
   \<and> map_option i_version (inventory after_restock (''t1'', ''IT-001'')) = Some 2
   \<and> mutate_after_read (Reserve (reserve_dto 10)) (draw ''a2'' ''2026-01-03T11:00:01.000Z'')
        (Some team_snapshot) after_restock = (Inl ConcurrentModification, after_restock)"
proof -
  let ?fx = "draw ''a1'' ''2026-01-03T11:00:00.000Z''"
  let ?fx2 = "draw ''a2'' ''2026-01-03T11:00:01.000Z''"
  have row: "inventory team_db (mutation_key (Restock (restock_dto 5))) =
     Some \<lparr>i_stock = 20, i_reserved = 0, i_version = 1,
           i_updated_at = ''2026-01-03T10:00:00.000Z''\<rparr>"
    by (simp add: restock_dto_def team_db_row)
  have row2: "inventory after_restock (mutation_key (Reserve (reserve_dto 10))) =
     Some \<lparr>i_stock = 25, i_reserved = 0, i_version = 2,
           i_updated_at = ''2026-01-03T11:00:00.000Z''\<rparr>"
    by (simp add: reserve_dto_def after_restock_eq(2))
  have ok: "mutate_after_read (Restock (restock_dto 5)) ?fx (Some team_snapshot) team_db
              = (Inr True, after_restock)"
    using after_restock_eq(1) by (simp add: restock_def team_db_item completed_def restock_dto_def)
  have key: "mutation_key (Reserve (reserve_dto 10)) = mutation_key (Restock (restock_dto 5))"
    by (simp add: reserve_dto_def restock_dto_def)
  have reach: "reaches_update (Reserve (reserve_dto 10)) team_snapshot"
    by (simp add: reserve_dto_def team_snapshot_def)
  from version_guard [OF row, where fx = ?fx and cur = team_snapshot and d' = after_restock
        and ?m2.0 = "Reserve (reserve_dto 10)" and ?cur2.0 = team_snapshot and ?fx2.0 = ?fx2
        and steps = "[]"] ok key reach
  have "map_option i_version (inventory after_restock (mutation_key (Restock (restock_dto 5))))
          = Some 2"
    and "snd (mutate_after_read (Reserve (reserve_dto 10)) ?fx2 (Some team_snapshot)
          after_restock) = after_restock"
    and "fst (mutate_after_read (Reserve (reserve_dto 10)) ?fx2 (Some team_snapshot)
          after_restock) = Inl ConcurrentModification"
    by simp_all
  moreover
  from version_guard [OF row2, where fx = ?fx2 and cur = team_snapshot] reach
  have "snd (mutate_after_read (Reserve (reserve_dto 10)) ?fx2 (Some team_snapshot)
          after_restock) = after_restock"
    by (simp add: team_snapshot_def)
  ultimately show ?thesis using row ok
    by (simp add: restock_dto_def prod_eq_iff)
qed

lemma update_inventory_cases:
  assumes "update_inventory f now tid k v d = (c, d1)"
  shows "(c = 0 \<and> d1 = d)
         \<or> (\<exists>i. inventory d (tid, k) = Some i \<and> i_version i = v \<and> c = 1
                \<and> d1 = d\<lparr>inventory := (inventory d)((tid, k) \<mapsto>
                       (f i)\<lparr>i_version := i_version i + 1, i_updated_at := now\<rparr>)\<rparr>)"
  using assms by (auto simp: update_inventory_def split: option.splits if_splits)

lemma logInventoryEvent_frame:
  "logInventoryEvent ev d = Inr d' \<Longrightarrow>
   inventory d' = inventory d \<and> skus d' = skus d \<and> events d' = events d
   \<and> inventory_events d' = inventory_events d @ [ev]"
  by (auto simp: logInventoryEvent_def split: if_splits)

lemma restock_frame:
  assumes "restock_after_read dto fx current d = (Inr u, d')"
  shows "\<exists>i cur. current = Some cur \<and> inventory d (rs_teamId dto, rs_sku dto) = Some i
           \<and> inventory d' = (inventory d)((rs_teamId dto, rs_sku dto) \<mapsto>
                i\<lparr>i_stock := stock cur + rs_quantity dto,
                  i_version := i_version i + 1, i_updated_at := now1 fx\<rparr>)
           \<and> skus d' = skus d \<and> events d' = events d"
proof (cases current)
  case None
  with assms show ?thesis by (simp add: restock_after_read_def)
next
  case (Some cur)
  obtain c d1 where upd: "update_inventory (\<lambda>i. i\<lparr>i_stock := stock cur + rs_quantity dto\<rparr>)
      (now1 fx) (rs_teamId dto) (rs_sku dto) (version cur) d = (c, d1)"
    by (cases "update_inventory (\<lambda>i. i\<lparr>i_stock := stock cur + rs_quantity dto\<rparr>)
      (now1 fx) (rs_teamId dto) (rs_sku dto) (version cur) d") auto
  from assms Some upd have c: "c \<noteq> 0"
    by (auto simp: restock_after_read_def Let_def split: if_splits)
  from assms Some upd c obtain ev where log: "logInventoryEvent ev d1 = Inr d'"
    by (auto simp: restock_after_read_def Let_def split: sum.splits if_splits)
  from update_inventory_cases [OF upd] c logInventoryEvent_frame [OF log] Some
  show ?thesis by auto
qed

lemma reserve_frame:
  assumes "reserve_after_read dto fx current d = (Inr True, d')"
  shows "\<exists>i cur. current = Some cur \<and> inventory d (rv_teamId dto, rv_sku dto) = Some i
           \<and> inventory d' = (inventory d)((rv_teamId dto, rv_sku dto) \<mapsto>
                i\<lparr>i_reserved := reserved cur + rv_quantity dto,
                  i_version := i_version i + 1, i_updated_at := now1 fx\<rparr>)
           \<and> skus d' = skus d \<and> events d' = events d"
proof (cases current)
  case None
  with assms show ?thesis by (simp add: reserve_after_read_def)
next
  case (Some cur)
  obtain c d1 where upd: "update_inventory (\<lambda>i. i\<lparr>i_reserved := reserved cur + rv_quantity dto\<rparr>)
      (now1 fx) (rv_teamId dto) (rv_sku dto) (version cur) d = (c, d1)"
    by (cases "update_inventory (\<lambda>i. i\<lparr>i_reserved := reserved cur + rv_quantity dto\<rparr>)
      (now1 fx) (rv_teamId dto) (rv_sku dto) (version cur) d") auto
  from assms Some upd have c: "c \<noteq> 0"
    by (auto simp: reserve_after_read_def Let_def split: if_splits)
  from assms Some upd c obtain ev where log: "logInventoryEvent ev d1 = Inr d'"
    by (auto simp: reserve_after_read_def Let_def split: sum.splits if_splits)
  from update_inventory_cases [OF upd] c logInventoryEvent_frame [OF log] Some
  show ?thesis by auto
qed

lemma adjust_frame:
  assumes "adjust_after_read tid k q reason actor fx current d = (Inr u, d')"
  shows "\<exists>i cur. current = Some cur \<and> inventory d (tid, k) = Some i
           \<and> inventory d' = (inventory d)((tid, k) \<mapsto>
                i\<lparr>i_stock := stock cur + q,
                  i_version := i_version i + 1, i_updated_at := now1 fx\<rparr>)
           \<and> skus d' = skus d \<and> events d' = events d"
proof (cases current)
  case None
  with assms show ?thesis by (simp add: adjust_after_read_def)
next
  case (Some cur)
  obtain c d1 where upd: "update_inventory (\<lambda>i. i\<lparr>i_stock := stock cur + q\<rparr>)
      (now1 fx) tid k (version cur) d = (c, d1)"
    by (cases "update_inventory (\<lambda>i. i\<lparr>i_stock := stock cur + q\<rparr>)
      (now1 fx) tid k (version cur) d") auto
  from assms Some upd have c: "c \<noteq> 0"
    by (auto simp: adjust_after_read_def Let_def split: if_splits)
  from assms Some upd c obtain ev where log: "logInventoryEvent ev d1 = Inr d'"
    by (auto simp: adjust_after_read_def Let_def split: sum.splits if_splits)
  from update_inventory_cases [OF upd] c logInventoryEvent_frame [OF log] Some
  show ?thesis by auto
qed

text \<open>
  Claim C10. A \<^verbatim>\<open>reserve\<close> that returns \<^verbatim>\<open>true\<close> leaves the inventory table as it was
  except for the record it addresses, and of that record it sets \<open>reserved\<close>, \<open>version\<close>
  and \<open>updated_at\<close>: \<open>stock\<close> keeps its value. A \<^verbatim>\<open>restock\<close> or an \<^verbatim>\<open>adjust\<close> that
  returns sets \<open>stock\<close>, \<open>version\<close> and \<open>updated_at\<close> of its record: \<open>reserved\<close> keeps its
  value. The catalog and the event log are untouched. The method itself is the case
  \<open>current = getInventoryItem d team sku\<close>.
\<close>

theorem mutation_frame:
  "(reserve_after_read rv fx current d = (Inr True, d') \<longrightarrow>
      (\<exists>i cur. current = Some cur \<and> inventory d (rv_teamId rv, rv_sku rv) = Some i
         \<and> inventory d' = (inventory d)((rv_teamId rv, rv_sku rv) \<mapsto>
              i\<lparr>i_reserved := reserved cur + rv_quantity rv,
                i_version := i_version i + 1, i_updated_at := now1 fx\<rparr>)
         \<and> skus d' = skus d \<and> events d' = events d))
   \<and> (restock_after_read rs fx current d = (Inr (), d') \<longrightarrow>
      (\<exists>i cur. current = Some cur \<and> inventory d (rs_teamId rs, rs_sku rs) = Some i
         \<and> inventory d' = (inventory d)((rs_teamId rs, rs_sku rs) \<mapsto>
              i\<lparr>i_stock := stock cur + rs_quantity rs,
                i_version := i_version i + 1, i_updated_at := now1 fx\<rparr>)
         \<and> skus d' = skus d \<and> events d' = events d))
   \<and> (adjust_after_read tid k q reason actor fx current d = (Inr (), d') \<longrightarrow>
      (\<exists>i cur. current = Some cur \<and> inventory d (tid, k) = Some i
         \<and> inventory d' = (inventory d)((tid, k) \<mapsto>
              i\<lparr>i_stock := stock cur + q,
                i_version := i_version i + 1, i_updated_at := now1 fx\<rparr>)
         \<and> skus d' = skus d \<and> events d' = events d))"
  using reserve_frame [of rv fx current d d'] restock_frame [of rs fx current d "()" d']
    adjust_frame [of tid k q reason actor fx current d "()" d']
  by blast

lemma after_recount_eq:
  "adjust ''t1'' ''IT-001'' (- 3) ''recount'' ''staff''
     (draw ''a1'' ''2026-01-03T11:00:00.000Z'') team_db = (Inr (), after_recount)"
  by (simp add: after_recount_def adjust_def adjust_after_read_def team_db_item
        team_snapshot_def update_inventory_def team_db_row logInventoryEvent_def team_db_audit
        draw_def Let_def)

theorem mutation_frame_witness:
  "reserve_after_read (reserve_dto 10) (draw ''a1'' ''2026-01-03T11:00:00.000Z'')
     (Some team_snapshot) team_db = (Inr True, after_reserve)
   \<and> restock_after_read (restock_dto 5) (draw ''a1'' ''2026-01-03T11:00:00.000Z'')
     (Some team_snapshot) team_db = (Inr (), after_restock)
   \<and> adjust_after_read ''t1'' ''IT-001'' (- 3) ''recount'' ''staff''
     (draw ''a1'' ''2026-01-03T11:00:00.000Z'') (Some team_snapshot) team_db
       = (Inr (), after_recount)
   \<and> map_option i_stock (inventory after_reserve (''t1'', ''IT-001'')) = Some 20
   \<and> map_option i_reserved (inventory after_restock (''t1'', ''IT-001'')) = Some 0
   \<and> map_option i_reserved (inventory after_recount (''t1'', ''IT-001'')) = Some 0
   \<and> inventory after_reserve (''t2'', ''IT-001'') = inventory team_db (''t2'', ''IT-001'')"
proof -
  let ?fx = "draw ''a1'' ''2026-01-03T11:00:00.000Z''"
  have a: "reserve_after_read (reserve_dto 10) ?fx (Some team_snapshot) team_db
             = (Inr True, after_reserve)"
    using after_reserve_eq(1) by (simp add: reserve_def reserve_dto_def team_db_item)
  have b: "restock_after_read (restock_dto 5) ?fx (Some team_snapshot) team_db
             = (Inr (), after_restock)"
    using after_restock_eq(1) by (simp add: restock_def restock_dto_def team_db_item)
  have c: "adjust_after_read ''t1'' ''IT-001'' (- 3) ''recount'' ''staff'' ?fx
             (Some team_snapshot) team_db = (Inr (), after_recount)"
    using after_recount_eq by (simp add: adjust_def team_db_item)
  from mutation_frame [of "reserve_dto 10" ?fx "Some team_snapshot" team_db after_reserve] a
  have "inventory after_reserve = (inventory team_db)((''t1'', ''IT-001'') \<mapsto>
      \<lparr>i_stock = 20, i_reserved = 10, i_version = 2,
       i_updated_at = ''2026-01-03T11:00:00.000Z''\<rparr>)"
    by (auto simp: reserve_dto_def team_db_row team_snapshot_def draw_def)
  moreover
  from mutation_frame [of _ ?fx "Some team_snapshot" team_db after_restock "restock_dto 5"] b
  have "inventory after_restock = (inventory team_db)((''t1'', ''IT-001'') \<mapsto>
      \<lparr>i_stock = 25, i_reserved = 0, i_version = 2,
       i_updated_at = ''2026-01-03T11:00:00.000Z''\<rparr>)"
    by (auto simp: restock_dto_def team_db_row team_snapshot_def draw_def)
  moreover
  from mutation_frame [of _ ?fx "Some team_snapshot" team_db after_recount _
         "''t1''" "''IT-001''" "- 3" "''recount''" "''staff''"] c
  have "inventory after_recount = (inventory team_db)((''t1'', ''IT-001'') \<mapsto>
      \<lparr>i_stock = 17, i_reserved = 0, i_version = 2,
       i_updated_at = ''2026-01-03T11:00:00.000Z''\<rparr>)"
    by (auto simp: team_db_row team_snapshot_def draw_def)
  ultimately show ?thesis using a b c by simp
qed

lemma after_reserve_item:
  "getInventoryItem after_reserve ''t1'' ''IT-001'' =
     Some \<lparr>teamId = ''t1'', sku = ''IT-001'', name = ''NVMe SSD 1TB'', stock = 20,
           reserved = 10, available = 10, version = 2,
           updatedAt = ''2026-01-03T11:00:00.000Z''\<rparr>"
  using team_db_sku
  by (simp add: getInventoryItem_def after_reserve_eq mapRowToInventory_def)

text \<open>
  Where the invariant is kept: by \<^verbatim>\<open>reserve\<close> and \<^verbatim>\<open>restock\<close> of a quantity that is not
  negative, by \<^verbatim>\<open>release\<close>, and by an \<^verbatim>\<open>adjust\<close> that leaves the stock at or above the
  reserved quantity, whatever the call returns.
\<close>

lemma getInventoryItem_cases:
  assumes "getInventoryItem d tid k = Some cur"
  obtains i s where "inventory d (tid, k) = Some i" and "find (\<lambda>s. s_sku s = k) (skus d) = Some s"
    and "cur = mapRowToInventory tid s i"
  using assms by (auto simp: getInventoryItem_def split: option.splits)

lemma reserve_keeps_invariant:
  assumes item: "getInventoryItem d (rv_teamId dto) (rv_sku dto) = Some cur"
      and inv: "ledger_invariant cur"
      and pos: "0 \<le> rv_quantity dto"
  shows "\<exists>cur'. getInventoryItem (snd (reserve dto fx d)) (rv_teamId dto) (rv_sku dto) = Some cur'
           \<and> ledger_invariant cur'"
proof -
  from item obtain i s where row: "inventory d (rv_teamId dto, rv_sku dto) = Some i"
    and cat: "find (\<lambda>s. s_sku s = rv_sku dto) (skus d) = Some s"
    and cur: "cur = mapRowToInventory (rv_teamId dto) s i"
    by (rule getInventoryItem_cases)
  from inv pos show ?thesis
    by (simp add: reserve_def reserve_after_read_def item cur mapRowToInventory_def
          update_inventory_def row cat logInventoryEvent_def getInventoryItem_def
          ledger_invariant_def Let_def)
qed

lemma restock_keeps_invariant:
  assumes item: "getInventoryItem d (rs_teamId dto) (rs_sku dto) = Some cur"
      and inv: "ledger_invariant cur"
      and pos: "0 \<le> rs_quantity dto"
  shows "\<exists>cur'. getInventoryItem (snd (restock dto fx d)) (rs_teamId dto) (rs_sku dto) = Some cur'
           \<and> ledger_invariant cur'"
proof -
  from item obtain i s where row: "inventory d (rs_teamId dto, rs_sku dto) = Some i"
    and cat: "find (\<lambda>s. s_sku s = rs_sku dto) (skus d) = Some s"
    and cur: "cur = mapRowToInventory (rs_teamId dto) s i"
    by (rule getInventoryItem_cases)
  from inv pos show ?thesis
    by (simp add: restock_def restock_after_read_def item cur mapRowToInventory_def
          update_inventory_def row cat logInventoryEvent_def getInventoryItem_def
          ledger_invariant_def Let_def)
qed

lemma release_keeps_invariant:
  assumes item: "getInventoryItem d tid k = Some cur"
      and inv: "ledger_invariant cur"
  shows "\<exists>cur'. getInventoryItem (snd (release tid k q oid fx d)) tid k = Some cur'
           \<and> ledger_invariant cur'"
proof -
  from item obtain i s where row: "inventory d (tid, k) = Some i"
    and cat: "find (\<lambda>s. s_sku s = k) (skus d) = Some s"
    and cur: "cur = mapRowToInventory tid s i"
    by (rule getInventoryItem_cases)
  from inv show ?thesis
    by (simp add: release_def release_after_read_def item cur mapRowToInventory_def
          update_inventory_def row cat getInventoryItem_def ledger_invariant_def Let_def)
qed

lemma adjust_keeps_invariant:
  assumes item: "getInventoryItem d tid k = Some cur"
      and inv: "ledger_invariant cur"
      and above: "reserved cur \<le> stock cur + q"
  shows "\<exists>cur'. getInventoryItem (snd (adjust tid k q reason actor fx d)) tid k = Some cur'
           \<and> ledger_invariant cur'"
proof -
  from item obtain i s where row: "inventory d (tid, k) = Some i"
    and cat: "find (\<lambda>s. s_sku s = k) (skus d) = Some s"
    and cur: "cur = mapRowToInventory tid s i"
    by (rule getInventoryItem_cases)
  from inv above show ?thesis
    by (simp add: adjust_def adjust_after_read_def item cur mapRowToInventory_def
          update_inventory_def row cat logInventoryEvent_def getInventoryItem_def
          ledger_invariant_def Let_def)
qed

text \<open>
  Claim C2, evaluated. Team \<^verbatim>\<open>t1\<close> starts with \<^verbatim>\<open>IT-001\<close> at stock 20, reserved 0.
  \<^verbatim>\<open>reserve\<close> of 10 returns \<^verbatim>\<open>true\<close>; the invariant holds. \<^verbatim>\<open>adjust\<close> by \<open>-15\<close> passes
  its check (\<open>newStock = 5\<close> is not negative) and is written: the record then has stock 5,
  reserved 10 and available \<open>-5\<close>, and the invariant is broken.
\<close>

theorem adjust_below_reserved:
  "map_option ledger_invariant (getInventoryItem team_db ''t1'' ''IT-001'') = Some True
   \<and> reserve (reserve_dto 10) (draw ''a1'' ''2026-01-03T11:00:00.000Z'') team_db
        = (Inr True, after_reserve)
   \<and> map_option ledger_invariant (getInventoryItem after_reserve ''t1'' ''IT-001'') = Some True
   \<and> adjust ''t1'' ''IT-001'' (- 15) ''recount'' ''staff''
        (draw ''a2'' ''2026-01-03T12:00:00.000Z'') after_reserve = (Inr (), after_adjust)
   \<and> map_option stock (getInventoryItem after_adjust ''t1'' ''IT-001'') = Some 5
   \<and> map_option reserved (getInventoryItem after_adjust ''t1'' ''IT-001'') = Some 10
   \<and> map_option available (getInventoryItem after_adjust ''t1'' ''IT-001'') = Some (- 5)
   \<and> map_option ledger_invariant (getInventoryItem after_adjust ''t1'' ''IT-001'') = Some False"
proof -
  have ids: "ie_id ` set (inventory_events after_reserve) = {''a1''}"
    using after_reserve_eq(4) by (metis list.set_map list.simps(15) empty_set)
  have adj: "adjust ''t1'' ''IT-001'' (- 15) ''recount'' ''staff''
        (draw ''a2'' ''2026-01-03T12:00:00.000Z'') after_reserve = (Inr (), after_adjust)"
    and row: "inventory after_adjust (''t1'', ''IT-001'') =
        Some \<lparr>i_stock = 5, i_reserved = 10, i_version = 3,
              i_updated_at = ''2026-01-03T12:00:00.000Z''\<rparr>"
    and cat: "skus after_adjust = skus team_db"
    by (simp_all add: after_adjust_def adjust_def adjust_after_read_def after_reserve_item
          update_inventory_def after_reserve_eq logInventoryEvent_def draw_def Let_def ids)
  have item: "getInventoryItem after_adjust ''t1'' ''IT-001'' =
     Some \<lparr>teamId = ''t1'', sku = ''IT-001'', name = ''NVMe SSD 1TB'', stock = 5,
           reserved = 10, available = - 5, version = 3,
           updatedAt = ''2026-01-03T12:00:00.000Z''\<rparr>"
    using team_db_sku by (simp add: getInventoryItem_def row cat mapRowToInventory_def)
  show ?thesis
    by (simp add: team_db_item team_snapshot_def after_reserve_eq(1) after_reserve_item adj item
          ledger_invariant_def)
qed




section \<open>Properties of the event log\<close>

text \<open>
  Lookup by id: what \<^verbatim>\<open>getEventById\<close> finds before and after a row is appended.
\<close>

lemma find_snoc:
  "find P (xs @ [y]) = (case find P xs of Some x \<Rightarrow> Some x | None \<Rightarrow> if P y then Some y else None)"
  by (induction xs) auto

lemma find_None_ids: "find (\<lambda>row. e_id row = x) rows = None \<longleftrightarrow> x \<notin> set (map e_id rows)"
  by (induction rows) auto

lemma getEventById_None: "getEventById d x = None \<longleftrightarrow> x \<notin> set (map e_id (events d))"
proof -
  have "getEventById d x = None \<longleftrightarrow> find (\<lambda>row. e_id row = x) (events d) = None"
    by (simp add: getEventById_def split: option.splits)
  then show ?thesis by (simp only: find_None_ids)
qed

lemma getEventById_id: "getEventById d x = Some ev \<Longrightarrow> ev_id ev = x"
  by (auto simp: getEventById_def mapRowToEvent_def find_Some_iff split: option.splits)

lemma getEventById_append:
  "getEventById (d\<lparr>events := events d @ [row]\<rparr>) x =
     (case getEventById d x of
        Some ev \<Rightarrow> Some ev
      | None \<Rightarrow> if e_id row = x then Some (mapRowToEvent row) else None)"
  by (simp add: getEventById_def find_snoc split: option.splits)

lemma createEvent_existing_id:
  "getEventById d (uuid fx) = Some existing \<Longrightarrow> createEvent dto fx d = (Inr existing, d)"
  by (simp add: createEvent_def)

lemma createEvent_new_id:
  assumes "uuid fx \<notin> set (map e_id (events d))"
  shows "createEvent dto fx d =
    (Inr \<lparr>ev_id = uuid fx, ev_teamId = dto_teamId dto, ev_type = dto_type dto,
          ev_payload = dto_payload dto, ev_createdAt = now1 fx,
          ev_processedAt = Undefined, ev_metadata = dto_metadata dto\<rparr>,
     d\<lparr>events := events d @
         [\<lparr>e_id = uuid fx, e_team_id = dto_teamId dto, e_type = dto_type dto,
           e_payload = dto_payload dto, e_created_at = now1 fx,
           e_processed_at = None, e_metadata = dto_metadata dto\<rparr>]\<rparr>)"
  using assms getEventById_None [of d "uuid fx"] by (simp add: createEvent_def Let_def)

lemma first_create_eq:
  "first_create =
    (Inr \<lparr>ev_id = ''id-1'', ev_teamId = ''t1'', ev_type = ''order.created'',
          ev_payload = dto_payload order_dto, ev_createdAt = ''2026-01-03T10:00:00.000Z'',
          ev_processedAt = Undefined, ev_metadata = None\<rparr>,
     catalog_db\<lparr>events :=
         [\<lparr>e_id = ''id-1'', e_team_id = ''t1'', e_type = ''order.created'',
           e_payload = dto_payload order_dto, e_created_at = ''2026-01-03T10:00:00.000Z'',
           e_processed_at = None, e_metadata = None\<rparr>]\<rparr>)"
  by (simp add: first_create_def createEvent_def getEventById_def catalog_db_def draw_def
        order_dto_def Let_def)

lemma first_create_lookup:
  "getEventById (snd first_create) ''id-1'' =
     Some \<lparr>ev_id = ''id-1'', ev_teamId = ''t1'', ev_type = ''order.created'',
           ev_payload = dto_payload order_dto, ev_createdAt = ''2026-01-03T10:00:00.000Z'',
           ev_processedAt = Null, ev_metadata = None\<rparr>"
  "getEventById (snd first_create) ''nope'' = None"
  "map e_id (events (snd first_create)) = [''id-1'']"
  "length (events (snd first_create)) = 1"
  by (simp_all add: first_create_eq getEventById_def mapRowToEvent_def)

text \<open>
  When the id drawn is already in the log, the lookup answers: the store stays as it is
  and the stored event is returned, with \<^verbatim>\<open>processedAt\<close> \<^verbatim>\<open>null\<close> where the call that
  stored it returned an object without that property.
\<close>

lemma createEvent_same_draw:
  assumes fresh: "uuid fx \<notin> set (map e_id (events d))" and same: "uuid fx' = uuid fx"
  shows "createEvent dto' fx' (snd (createEvent dto fx d)) =
           (map_sum id (\<lambda>ev. ev\<lparr>ev_processedAt := Null\<rparr>) (fst (createEvent dto fx d)),
            snd (createEvent dto fx d))"
proof -
  from fresh getEventById_None [of d "uuid fx"] have none: "getEventById d (uuid fx) = None"
    by simp
  show ?thesis
    by (simp add: createEvent_new_id [OF fresh] createEvent_def [of dto' fx'] same
          getEventById_append none mapRowToEvent_def Let_def)
qed

text \<open>
  Claim C1, evaluated. \<^verbatim>\<open>CreateEventDTO\<close> carries no id, so a caller that retries submits
  the same DTO again, and each call draws its own id. The same DTO submitted twice gives two
  events with the ids \<^verbatim>\<open>id-1\<close> and \<^verbatim>\<open>id-2\<close> and two stored rows with the same payload:
  the lookup \<^verbatim>\<open>createEvent\<close> makes for its idempotency check is on an id no caller can
  repeat.
\<close>

theorem createEvent_retry_two_rows:
  "map_sum id ev_id (fst first_create) = Inr ''id-1''
   \<and> map_sum id ev_id (fst second_create) = Inr ''id-2''
   \<and> fst second_create \<noteq> fst first_create
   \<and> map e_id (events (snd first_create)) = [''id-1'']
   \<and> map e_id (events (snd second_create)) = [''id-1'', ''id-2'']
   \<and> map e_payload (events (snd second_create)) = [dto_payload order_dto, dto_payload order_dto]"
proof -
  note one = first_create_eq
  have two: "second_create =
    (Inr \<lparr>ev_id = ''id-2'', ev_teamId = ''t1'', ev_type = ''order.created'',
          ev_payload = dto_payload order_dto, ev_createdAt = ''2026-01-03T10:00:05.000Z'',
          ev_processedAt = Undefined, ev_metadata = None\<rparr>,
     catalog_db\<lparr>events :=
         [\<lparr>e_id = ''id-1'', e_team_id = ''t1'', e_type = ''order.created'',
           e_payload = dto_payload order_dto, e_created_at = ''2026-01-03T10:00:00.000Z'',
           e_processed_at = None, e_metadata = None\<rparr>,
          \<lparr>e_id = ''id-2'', e_team_id = ''t1'', e_type = ''order.created'',
           e_payload = dto_payload order_dto, e_created_at = ''2026-01-03T10:00:05.000Z'',
           e_processed_at = None, e_metadata = None\<rparr>]\<rparr>)"
    by (simp add: second_create_def one createEvent_def getEventById_def catalog_db_def draw_def
          order_dto_def Let_def)
  show ?thesis by (simp add: one two)
qed

text \<open>
  Claim C7. \<^verbatim>\<open>replayEvent\<close>, with a new identifier from \<^verbatim>\<open>uuidv4()\<close>. For an id
  that is not in the log it throws \<open>EventNotFound\<close> and leaves the store as it was. For an id
  that is, it appends one row and returns it as an event whose id is the new one, different
  from the source's, whose team, type and payload are the original's, and whose metadata
  has \<open>replayOf\<close> = the source id and \<open>delayedUntil\<close> = the \<open>delayUntil\<close> given (absent when
  none is given). The new event and the original are both in the log afterwards; read back,
  the new event is the one returned, with \<^verbatim>\<open>processedAt\<close> \<^verbatim>\<open>null\<close> instead of absent.
\<close>

theorem replayEvent_outcome:
  assumes fresh: "uuid fx \<notin> set (map e_id (events d))"
  shows "(getEventById d eventId = None \<longrightarrow>
            replayEvent eventId delayUntil fx d = (Inl EventNotFound, d))
       \<and> (\<forall>original. getEventById d eventId = Some original \<longrightarrow>
            (\<exists>ev row. replayEvent eventId delayUntil fx d
                         = (Inr ev, d\<lparr>events := events d @ [row]\<rparr>)
               \<and> mapRowToEvent row = ev\<lparr>ev_processedAt := Null\<rparr>
               \<and> ev_processedAt ev = Undefined
               \<and> ev_id ev = uuid fx \<and> ev_id ev \<noteq> eventId
               \<and> ev_teamId ev = ev_teamId original
               \<and> ev_type ev = ev_type original
               \<and> ev_payload ev = ev_payload original
               \<and> map_option replayOf (ev_metadata ev) = Some (Some eventId)
               \<and> map_option delayedUntil (ev_metadata ev) = Some delayUntil
               \<and> getEventById (d\<lparr>events := events d @ [row]\<rparr>) (ev_id ev)
                     = Some (ev\<lparr>ev_processedAt := Null\<rparr>)
               \<and> getEventById (d\<lparr>events := events d @ [row]\<rparr>) eventId = Some original))"
proof (intro conjI allI impI)
  assume "getEventById d eventId = None"
  then show "replayEvent eventId delayUntil fx d = (Inl EventNotFound, d)"
    by (simp add: replayEvent_def)
next
  fix original
  assume found: "getEventById d eventId = Some original"
  let ?dto = "\<lparr>dto_teamId = ev_teamId original, dto_type = ev_type original,
               dto_payload = ev_payload original,
               dto_metadata = Some \<lparr>correlationId = None, causationId = None,
                                    replayOf = Some eventId, delayedUntil = delayUntil,
                                    outOfOrder = None\<rparr>\<rparr>"
  let ?row = "\<lparr>e_id = uuid fx, e_team_id = dto_teamId ?dto, e_type = dto_type ?dto,
               e_payload = dto_payload ?dto, e_created_at = now1 fx,
               e_processed_at = None, e_metadata = dto_metadata ?dto\<rparr>"
  from found getEventById_None [of d eventId] have known: "eventId \<in> set (map e_id (events d))"
    by auto
  with fresh have differ: "uuid fx \<noteq> eventId" by auto
  from fresh getEventById_None [of d "uuid fx"] have none: "getEventById d (uuid fx) = None"
    by simp
  let ?ev = "\<lparr>ev_id = uuid fx, ev_teamId = dto_teamId ?dto, ev_type = dto_type ?dto,
              ev_payload = dto_payload ?dto, ev_createdAt = now1 fx,
              ev_processedAt = Undefined, ev_metadata = dto_metadata ?dto\<rparr>"
  have run: "replayEvent eventId delayUntil fx d =
               (Inr ?ev, d\<lparr>events := events d @ [?row]\<rparr>)"
    using found createEvent_new_id [OF fresh, of ?dto]
    by (simp add: replayEvent_def)
  show "\<exists>ev row. replayEvent eventId delayUntil fx d
                         = (Inr ev, d\<lparr>events := events d @ [row]\<rparr>)
               \<and> mapRowToEvent row = ev\<lparr>ev_processedAt := Null\<rparr>
               \<and> ev_processedAt ev = Undefined
               \<and> ev_id ev = uuid fx \<and> ev_id ev \<noteq> eventId
               \<and> ev_teamId ev = ev_teamId original
               \<and> ev_type ev = ev_type original
               \<and> ev_payload ev = ev_payload original
               \<and> map_option replayOf (ev_metadata ev) = Some (Some eventId)
               \<and> map_option delayedUntil (ev_metadata ev) = Some delayUntil
               \<and> getEventById (d\<lparr>events := events d @ [row]\<rparr>) (ev_id ev)
                     = Some (ev\<lparr>ev_processedAt := Null\<rparr>)
               \<and> getEventById (d\<lparr>events := events d @ [row]\<rparr>) eventId = Some original"
    apply (rule exI [of _ ?ev])
    apply (rule exI [of _ ?row])
    using run differ none found
    by (simp add: getEventById_append mapRowToEvent_def)
qed

theorem replayEvent_outcome_witness:
  "uuid (draw ''id-9'' ''2026-01-03T10:09:00.000Z'') \<notin> set (map e_id (events (snd first_create)))
   \<and> getEventById (snd first_create) ''nope'' = None
   \<and> replayEvent ''nope'' None (draw ''id-9'' ''2026-01-03T10:09:00.000Z'') (snd first_create)
        = (Inl EventNotFound, snd first_create)
   \<and> getEventById (snd first_create) ''id-1'' \<noteq> None
   \<and> map_sum id (\<lambda>ev. (ev_id ev, ev_teamId ev, ev_type ev, ev_payload ev = dto_payload order_dto,
                        map_option replayOf (ev_metadata ev),
                        map_option delayedUntil (ev_metadata ev)))
        (fst (replayEvent ''id-1'' (Some ''2026-01-03T11:00:00.000Z'')
                (draw ''id-9'' ''2026-01-03T10:09:00.000Z'') (snd first_create)))
        = Inr (''id-9'', ''t1'', ''order.created'', True, Some (Some ''id-1''),
               Some (Some ''2026-01-03T11:00:00.000Z''))
   \<and> length (events (snd (replayEvent ''id-1'' (Some ''2026-01-03T11:00:00.000Z'')
                (draw ''id-9'' ''2026-01-03T10:09:00.000Z'') (snd first_create)))) = 2"
proof -
  let ?fx = "draw ''id-9'' ''2026-01-03T10:09:00.000Z''"
  let ?d = "snd first_create"
  have fresh: "uuid ?fx \<notin> set (map e_id (events ?d))"
    by (simp only: first_create_lookup(3)) (simp add: draw_def)
  note inst = replayEvent_outcome [OF fresh]
  from inst [of "''nope''" None] first_create_lookup(2)
  have a: "replayEvent ''nope'' None ?fx ?d = (Inl EventNotFound, ?d)" by blast
  from inst [of "''id-1''" "Some ''2026-01-03T11:00:00.000Z''"] first_create_lookup(1)
  obtain ev row where
    "replayEvent ''id-1'' (Some ''2026-01-03T11:00:00.000Z'') ?fx ?d
       = (Inr ev, ?d\<lparr>events := events ?d @ [row]\<rparr>)"
    "ev_id ev = uuid ?fx" "ev_teamId ev = ''t1''" "ev_type ev = ''order.created''"
    "ev_payload ev = dto_payload order_dto"
    "map_option replayOf (ev_metadata ev) = Some (Some ''id-1'')"
    "map_option delayedUntil (ev_metadata ev) = Some (Some ''2026-01-03T11:00:00.000Z'')"
    by fastforce
  with a fresh first_create_lookup show ?thesis
    by (simp add: draw_def)
qed

lemma markAsProcessed_stamp:
  "markAsProcessed eventId fx d = (Inr (), d\<lparr>events := map (stamp eventId (now1 fx)) (events d)\<rparr>)"
  by (simp add: markAsProcessed_def stamp_def)

lemma find_stamp:
  "find (\<lambda>row. e_id row = x) (map (stamp y now) rows) =
     map_option (stamp y now) (find (\<lambda>row. e_id row = x) rows)"
  by (induction rows) (auto simp: stamp_def)

lemma getEventById_stamp:
  "getEventById (d\<lparr>events := map (stamp y now) (events d)\<rparr>) x =
     map_option (\<lambda>ev. if x = y then ev\<lparr>ev_processedAt := Str now\<rparr> else ev) (getEventById d x)"
proof (cases "find (\<lambda>row. e_id row = x) (events d)")
  case None
  then show ?thesis by (simp add: getEventById_def find_stamp)
next
  case (Some row)
  then have "e_id row = x" by (auto simp: find_Some_iff)
  with Some show ?thesis
    by (simp add: getEventById_def find_stamp stamp_def mapRowToEvent_def)
qed

lemma stamp_absent:
  "y \<notin> set (map e_id rows) \<Longrightarrow> map (stamp y now) rows = rows"
  by (induction rows) (auto simp: stamp_def)

text \<open>
  Claim C6 as stated fails: a second \<^verbatim>\<open>markAsProcessed\<close> replaces the stored
  \<open>processedAt\<close> (10:01 becomes 10:02), and an id that is not in the log gives no error.
\<close>

theorem markAsProcessed_counterexample:
  "map_option ev_processedAt (getEventById (snd first_create) ''id-1'') = Some Null
   \<and> map_option ev_processedAt (getEventById marked_once ''id-1'')
        = Some (Str ''2026-01-03T10:01:00.000Z'')
   \<and> map_option ev_processedAt (getEventById marked_twice ''id-1'')
        = Some (Str ''2026-01-03T10:02:00.000Z'')
   \<and> getEventById (snd first_create) ''nope'' = None
   \<and> markAsProcessed ''nope'' (draw [] ''2026-01-03T10:01:00.000Z'') (snd first_create)
        = (Inr (), snd first_create)"
  by (simp add: marked_twice_def marked_once_def markAsProcessed_def first_create_eq
        getEventById_def mapRowToEvent_def draw_def)

text \<open>
  Claim C6, amended. \<^verbatim>\<open>markAsProcessed\<close> never throws. The event with the given id, if
  there is one, has \<open>processedAt\<close> = the time of this call afterwards, whatever it had
  before, and is otherwise as it was; every other event is as it was; with an id that is
  not in the log the store is unchanged. The inventory tables are untouched.
\<close>

theorem markAsProcessed_overwrites:
  "fst (markAsProcessed eventId fx d) = Inr ()
   \<and> getEventById (snd (markAsProcessed eventId fx d)) eventId
        = map_option (\<lambda>ev. ev\<lparr>ev_processedAt := Str (now1 fx)\<rparr>) (getEventById d eventId)
   \<and> (\<forall>other. other \<noteq> eventId \<longrightarrow>
          getEventById (snd (markAsProcessed eventId fx d)) other = getEventById d other)
   \<and> (getEventById d eventId = None \<longrightarrow> snd (markAsProcessed eventId fx d) = d)
   \<and> skus (snd (markAsProcessed eventId fx d)) = skus d
   \<and> inventory (snd (markAsProcessed eventId fx d)) = inventory d
   \<and> inventory_events (snd (markAsProcessed eventId fx d)) = inventory_events d"
proof (intro conjI allI impI)
  show "getEventById (snd (markAsProcessed eventId fx d)) eventId
          = map_option (\<lambda>ev. ev\<lparr>ev_processedAt := Str (now1 fx)\<rparr>) (getEventById d eventId)"
    by (simp add: markAsProcessed_stamp getEventById_stamp)
next
  fix other :: string
  assume "other \<noteq> eventId"
  then show "getEventById (snd (markAsProcessed eventId fx d)) other = getEventById d other"
    by (simp add: markAsProcessed_stamp getEventById_stamp option.map_ident)
next
  assume "getEventById d eventId = None"
  with getEventById_None [of d eventId] have "eventId \<notin> set (map e_id (events d))" by blast
  then show "snd (markAsProcessed eventId fx d) = d"
    by (simp add: markAsProcessed_stamp stamp_absent)
qed (simp_all add: markAsProcessed_stamp)

theorem markAsProcessed_overwrites_witness:
  "getEventById marked_once ''id-1'' \<noteq> None
   \<and> map_option ev_processedAt (getEventById marked_once ''id-1'')
        = Some (Str ''2026-01-03T10:01:00.000Z'')
   \<and> map_option ev_processedAt
        (getEventById (snd (markAsProcessed ''id-1'' (draw [] ''2026-01-03T10:02:00.000Z'')
           marked_once)) ''id-1'') = Some (Str ''2026-01-03T10:02:00.000Z'')
   \<and> getEventById marked_once ''nope'' = None
   \<and> markAsProcessed ''nope'' (draw [] ''2026-01-03T10:02:00.000Z'') marked_once
        = (Inr (), marked_once)"
proof -
  let ?fx = "draw [] ''2026-01-03T10:02:00.000Z''"
  have once: "getEventById marked_once ''id-1'' =
     Some \<lparr>ev_id = ''id-1'', ev_teamId = ''t1'', ev_type = ''order.created'',
           ev_payload = dto_payload order_dto, ev_createdAt = ''2026-01-03T10:00:00.000Z'',
           ev_processedAt = Str ''2026-01-03T10:01:00.000Z'', ev_metadata = None\<rparr>"
    and nope: "getEventById marked_once ''nope'' = None"
    by (simp_all add: marked_once_def markAsProcessed_def first_create_eq getEventById_def
          mapRowToEvent_def draw_def)
  from markAsProcessed_overwrites [of "''id-1''" ?fx marked_once] once
  have a: "map_option ev_processedAt
        (getEventById (snd (markAsProcessed ''id-1'' ?fx marked_once)) ''id-1'')
          = Some (Str ''2026-01-03T10:02:00.000Z'')"
    by (simp add: draw_def)
  from markAsProcessed_overwrites [of "''nope''" ?fx marked_once] nope
  have b: "markAsProcessed ''nope'' ?fx marked_once = (Inr (), marked_once)"
    by (simp add: prod_eq_iff)
  from a b once nope show ?thesis by simp
qed

text \<open>The validators accept exactly the shapes of the interface table.\<close>

lemma typeof_string: "typeof v = ''string'' \<longleftrightarrow> (\<exists>s. v = Some (JString s))"
  by (cases v rule: typeof.cases) simp_all

lemma typeof_number: "typeof v = ''number'' \<longleftrightarrow> (\<exists>n. v = Some (JNumber n))"
  by (cases v rule: typeof.cases) simp_all

lemma is_object_iff: "is_object v \<longleftrightarrow> (\<exists>xs. v = JArray xs) \<or> (\<exists>members. v = JObject members)"
  by (cases v) (simp_all add: is_object_def)

lemma every_item_iff:
  "every_item items = Inr True \<longleftrightarrow>
     list_all (\<lambda>item. has_string item ''sku'' \<and> has_number item ''qty'') items"
proof (induction items)
  case Nil
  show ?case by simp
next
  case (Cons item rest)
  show ?case
  proof (cases item)
    case (JObject members)
    with Cons show ?thesis
      by (auto simp: has_string_def has_number_def typeof_string typeof_number
               split: option.splits json.splits)
  qed (simp_all add: has_string_def has_number_def)
qed

lemma validateOrderPayload_iff:
  "validateOrderPayload payload = Inr True \<longleftrightarrow> has_string payload ''orderId'' \<and> has_items payload"
proof (cases payload)
  case (JObject members)
  then show ?thesis
    by (auto simp: validateOrderPayload_def is_object_def has_string_def has_items_def
          typeof_string every_item_iff split: option.splits json.splits)
qed (simp_all add: validateOrderPayload_def is_object_def has_string_def has_items_def)

lemma validateOrderCancellationPayload_iff:
  "validateOrderCancellationPayload payload = Inr True \<longleftrightarrow> has_string payload ''orderId''"
proof (cases payload)
  case (JObject members)
  then show ?thesis
    by (auto simp: validateOrderCancellationPayload_def is_object_def has_string_def
          typeof_string split: option.splits json.splits)
qed (simp_all add: validateOrderCancellationPayload_def is_object_def has_string_def)

lemma validateInventoryPayload_iff:
  "validateInventoryPayload payload = Inr True \<longleftrightarrow>
     has_string payload ''sku'' \<and> has_number payload ''quantity''"
proof (cases payload)
  case (JObject members)
  then show ?thesis
    by (auto simp: validateInventoryPayload_def is_object_def has_string_def has_number_def
          typeof_string typeof_number split: option.splits json.splits)
qed (simp_all add: validateInventoryPayload_def is_object_def has_string_def has_number_def)

lemma validateEventPayload_iff:
  "validateEventPayload type payload = Inr True \<longleftrightarrow> spec_required_shape type payload"
  by (simp add: validateEventPayload_def spec_required_shape_def validateOrderPayload_iff
        validateOrderCancellationPayload_iff validateInventoryPayload_iff)


lemma getEvents_unlimited_length:
  assumes "\<not> truthy_string (Option.bind filters f_type)"
      and "\<not> truthy_string (Option.bind filters f_since)"
      and "\<not> truthy_number (Option.bind filters f_limit)"
  shows "length (getEvents d tid filters) = length (filter (\<lambda>row. e_team_id row = tid) (events d))"
  using assms by (simp add: getEvents_def order_by_created_at_desc_def Let_def)

lemma sql_limit_subset: "set (sql_limit n rows) \<subseteq> set rows"
  by (auto simp: sql_limit_def dest: in_set_takeD)

lemma getEvents_rows:
  assumes "ev \<in> set (getEvents d tid filters)"
  obtains row where "ev = mapRowToEvent row" and "row \<in> set (events d)"
    and "e_team_id row = tid"
    and "truthy_string (Option.bind filters f_type) \<Longrightarrow>
           Some (e_type row) = Option.bind filters f_type"
    and "truthy_string (Option.bind filters f_since) \<Longrightarrow>
           \<exists>since. Option.bind filters f_since = Some since \<and> since < e_created_at row"
proof -
  define rows0 where "rows0 = filter (\<lambda>row. e_team_id row = tid) (events d)"
  define rows1 where "rows1 = (if truthy_string (Option.bind filters f_type)
       then filter (\<lambda>row. Some (e_type row) = Option.bind filters f_type) rows0 else rows0)"
  define rows2 where "rows2 = (if truthy_string (Option.bind filters f_since)
       then filter (\<lambda>row. case Option.bind filters f_since of
                              None \<Rightarrow> False
                            | Some since \<Rightarrow> since < e_created_at row) rows1
       else rows1)"
  define rows4 where "rows4 = (if truthy_number (Option.bind filters f_limit)
       then (case Option.bind filters f_limit of
               None \<Rightarrow> order_by_created_at_desc rows2
             | Some n \<Rightarrow> sql_limit n (order_by_created_at_desc rows2))
       else order_by_created_at_desc rows2)"
  have run: "getEvents d tid filters = map mapRowToEvent rows4"
    unfolding getEvents_def Let_def rows4_def rows2_def rows1_def rows0_def ..
  have "set rows4 \<subseteq> set (order_by_created_at_desc rows2)"
    by (auto simp: rows4_def split: option.splits dest: subsetD [OF sql_limit_subset])
  then have sub: "set rows4 \<subseteq> set rows2"
    by (simp add: order_by_created_at_desc_def)
  from assms run obtain row where ev: "ev = mapRowToEvent row" and "row \<in> set rows4"
    by auto
  with sub have in2: "row \<in> set rows2" by auto
  then have in1: "row \<in> set rows1" by (auto simp: rows2_def split: if_splits)
  then have in0: "row \<in> set rows0" by (auto simp: rows1_def split: if_splits)
  have "truthy_string (Option.bind filters f_type) \<Longrightarrow>
           Some (e_type row) = Option.bind filters f_type"
    using in1 by (auto simp: rows1_def)
  moreover have "truthy_string (Option.bind filters f_since) \<Longrightarrow>
           \<exists>since. Option.bind filters f_since = Some since \<and> since < e_created_at row"
    using in2 by (auto simp: rows2_def split: option.splits)
  ultimately show thesis
    using that [of row] ev in0 by (auto simp: rows0_def)
qed

lemma getEvents_team:
  "ev \<in> set (getEvents d tid filters) \<Longrightarrow> ev_teamId ev = tid"
  by (erule getEvents_rows) (simp add: mapRowToEvent_def)

lemma getEvents_type:
  "ev \<in> set (getEvents d tid filters) \<Longrightarrow> Option.bind filters f_type = Some t \<Longrightarrow> t \<noteq> [] \<Longrightarrow>
   ev_type ev = t"
  by (erule getEvents_rows) (simp add: mapRowToEvent_def truthy_string_def)

lemma getEvents_since:
  "ev \<in> set (getEvents d tid filters) \<Longrightarrow> Option.bind filters f_since = Some s \<Longrightarrow> s \<noteq> [] \<Longrightarrow>
   s < ev_createdAt ev"
  by (erule getEvents_rows) (simp add: mapRowToEvent_def truthy_string_def)

lemma sorted_rev_take: "sorted (rev xs) \<Longrightarrow> sorted (rev (take n xs))"
  by (metis append_take_drop_id rev_append sorted_append)

lemma getEvents_descending:
  "sorted (rev (map ev_createdAt (getEvents d tid filters)))"
proof -
  have key: "ev_createdAt \<circ> mapRowToEvent = e_created_at"
    by (auto simp: mapRowToEvent_def)
  have base: "sorted (rev (map e_created_at (order_by_created_at_desc rows)))" for rows
    by (simp add: order_by_created_at_desc_def rev_map [symmetric])
  have lim: "sorted (rev (map e_created_at (sql_limit n (order_by_created_at_desc rows))))"
    for n rows
    using sorted_rev_take [OF base]
    by (simp add: sql_limit_def base take_map)
  show ?thesis
    unfolding getEvents_def Let_def
    by (simp add: key base lim split: option.splits)
qed

lemma order_by_created_at_desc_ties:
  assumes "\<forall>row \<in> set rows. e_created_at row = t"
  shows "order_by_created_at_desc rows = rows"
proof -
  have "sorted (map e_created_at (rev rows))"
    using assms by (simp add: sorted_wrt_iff_nth_less rev_nth)
  then have "sort_key e_created_at (rev rows) = rev rows"
    by (rule sort_key_id_if_sorted)
  then show ?thesis by (simp add: order_by_created_at_desc_def)
qed

lemma getEvents_capped:
  "Option.bind filters f_limit = Some n \<Longrightarrow> 0 < n \<Longrightarrow> length (getEvents d tid filters) \<le> nat n"
  by (simp add: getEvents_def Let_def truthy_number_def sql_limit_def)

lemma busy_db_ids: "distinct (map e_id (events (busy_db n)))"
proof -
  have "inj_on (\<lambda>k. CHR ''e'' # replicate k (CHR ''1'')) A" for A :: "nat set"
    by (rule inj_onI) (metis length_replicate list.inject)
  then show ?thesis
    by (simp add: busy_db_def distinct_map comp_def numbered_event_def)
qed

lemma busy_db_team: "filter (\<lambda>row. e_team_id row = ''t1'') (events (busy_db n)) = events (busy_db n)"
  by (simp add: busy_db_def numbered_event_def)

text \<open>
  Claim C9, evaluated. With 101 events of one team in the log, \<^verbatim>\<open>getEvents\<close> without a
  limit returns all 101 (so does a limit of 0, which is falsy): no default bound applies.
  The rest of the claim holds: \<open>getEvents_team\<close>, \<open>getEvents_type\<close>, \<open>getEvents_since\<close>,
  \<open>getEvents_descending\<close> and, for a positive limit, \<open>getEvents_capped\<close>.
\<close>

theorem getEvents_unbounded:
  "distinct (map e_id (events (busy_db 101)))
   \<and> length (getEvents (busy_db 101) ''t1'' (Some no_filters)) = 101
   \<and> length (getEvents (busy_db 101) ''t1'' None) = 101
   \<and> length (getEvents (busy_db 101) ''t1'' (Some (no_filters\<lparr>f_limit := Some 0\<rparr>))) = 101"
proof -
  have len: "length (events (busy_db 101)) = 101"
    by (simp add: busy_db_def)
  have "length (getEvents (busy_db 101) ''t1'' filters) = 101"
    if "\<not> truthy_string (Option.bind filters f_type)"
      and "\<not> truthy_string (Option.bind filters f_since)"
      and "\<not> truthy_number (Option.bind filters f_limit)" for filters
    using getEvents_unlimited_length [OF that, of "busy_db 101" "''t1''"]
    by (simp only: busy_db_team len)
  then show ?thesis
    by (simp add: busy_db_ids no_filters_def truthy_string_def truthy_number_def)
qed

end
